theory Spec2Isabelle
  imports Main "HOL-Library.Word" "HOL-Library.Sublist"
begin

unbundle bit_operations_syntax

section \<open>JavaScript strings and buffers\<close>

text \<open>
  A JavaScript string is a sequence of UTF-16 code units; a Node \<open>Buffer\<close> is a
  sequence of bytes. \<open>js\<close> writes a string literal of the source (ASCII) as code
  units, \<open>bytes\<close> writes it as the bytes that travel on the wire.
\<close>

type_synonym jsstring = "16 word list"
type_synonym buffer = "8 word list"

definition js :: "string \<Rightarrow> jsstring" where
  "js s = map of_char s"

definition bytes :: "string \<Rightarrow> buffer" where
  "bytes s = map of_char s"

text \<open>\<open>String.prototype.startsWith\<close> is \<^const>\<open>prefix\<close>; \<open>includes\<close> searches
  every position.\<close>

fun js_includes :: "jsstring \<Rightarrow> jsstring \<Rightarrow> bool" where
  "js_includes [] pat = (pat = [])"
| "js_includes (c # cs) pat = (prefix pat (c # cs) \<or> js_includes cs pat)"

section \<open>Process supervisor: the module state and \<open>stopPythonBackend\<close>\<close>

text \<open>
  The module variables \<open>pythonProcess\<close> and \<open>isBackendReady\<close> of main.js, and
  the signals sent to child processes (the effect of \<open>pythonProcess.kill\<close>), oldest
  first. A process handle is a number.
\<close>

record supervisor =
  pythonProcess :: "nat option"
  isBackendReady :: bool
  kills :: "(nat \<times> string) list"

text \<open>
  \<^verbatim>\<open>
  function stopPythonBackend() {
    if (pythonProcess) {
      pythonProcess.kill('SIGTERM');
      pythonProcess = null;
      isBackendReady = false;
    }
  }
  \<close>
\<close>

definition stopPythonBackend :: "supervisor \<Rightarrow> supervisor" where
  "stopPythonBackend g =
     (case pythonProcess g of
        None \<Rightarrow> g
      | Some p \<Rightarrow> g\<lparr>kills := kills g @ [(p, ''SIGTERM'')],
                     pythonProcess := None,
                     isBackendReady := False\<rparr>)"

section \<open>Decoding a buffer: \<open>Buffer.prototype.toString\<close>\<close>

text \<open>
  \<open>chunk.toString()\<close> decodes the bytes of one chunk as UTF-8. An ill-formed or
  truncated sequence becomes U+FFFD (one per maximal ill-formed part) and decoding
  resumes at the offending byte; a code point beyond U+FFFF becomes a surrogate pair.
  The decoder keeps no state from one call to the next.
\<close>

definition REPLACEMENT :: "16 word" where
  "REPLACEMENT = 0xFFFD"

definition in_range :: "8 word \<Rightarrow> 8 word \<Rightarrow> 8 word \<Rightarrow> bool" where
  "in_range lo hi b = (lo \<le> b \<and> b \<le> hi)"

definition cp2 :: "8 word \<Rightarrow> 8 word \<Rightarrow> 16 word" where
  "cp2 b c = push_bit 6 (ucast (b AND 0x1F)) OR ucast (c AND 0x3F)"

definition cp3 :: "8 word \<Rightarrow> 8 word \<Rightarrow> 8 word \<Rightarrow> 16 word" where
  "cp3 b c d =
     push_bit 12 (ucast (b AND 0x0F)) OR push_bit 6 (ucast (c AND 0x3F)) OR ucast (d AND 0x3F)"

definition cp4 :: "8 word \<Rightarrow> 8 word \<Rightarrow> 8 word \<Rightarrow> 8 word \<Rightarrow> 32 word" where
  "cp4 b c d e =
     push_bit 18 (ucast (b AND 0x07)) OR push_bit 12 (ucast (c AND 0x3F))
       OR push_bit 6 (ucast (d AND 0x3F)) OR ucast (e AND 0x3F)"

definition surrogates :: "32 word \<Rightarrow> jsstring" where
  "surrogates cp =
     [0xD800 + ucast (drop_bit 10 (cp - 0x10000)), 0xDC00 + ucast ((cp - 0x10000) AND 0x3FF)]"

fun toString :: "buffer \<Rightarrow> jsstring" where
  "toString [] = []"
| "toString (b # bs) =
     (if b < 0x80 then ucast b # toString bs
      else if in_range 0xC2 0xDF b then
        (case bs of
           [] \<Rightarrow> [REPLACEMENT]
         | c # cs \<Rightarrow>
             if in_range 0x80 0xBF c then cp2 b c # toString cs
             else REPLACEMENT # toString bs)
      else if in_range 0xE0 0xEF b then
        (case bs of
           [] \<Rightarrow> [REPLACEMENT]
         | c # cs \<Rightarrow>
             if in_range (if b = 0xE0 then 0xA0 else 0x80) (if b = 0xED then 0x9F else 0xBF) c
             then (case cs of
                     [] \<Rightarrow> [REPLACEMENT]
                   | d # ds \<Rightarrow>
                       if in_range 0x80 0xBF d then cp3 b c d # toString ds
                       else REPLACEMENT # toString cs)
             else REPLACEMENT # toString bs)
      else if in_range 0xF0 0xF4 b then
        (case bs of
           [] \<Rightarrow> [REPLACEMENT]
         | c # cs \<Rightarrow>
             if in_range (if b = 0xF0 then 0x90 else 0x80) (if b = 0xF4 then 0x8F else 0xBF) c
             then (case cs of
                     [] \<Rightarrow> [REPLACEMENT]
                   | d # ds \<Rightarrow>
                       if in_range 0x80 0xBF d
                       then (case ds of
                               [] \<Rightarrow> [REPLACEMENT]
                             | e # es \<Rightarrow>
                                 if in_range 0x80 0xBF e
                                 then surrogates (cp4 b c d e) @ toString es
                                 else REPLACEMENT # toString ds)
                       else REPLACEMENT # toString cs)
             else REPLACEMENT # toString bs)
      else REPLACEMENT # toString bs)"

section \<open>\<open>JSON.parse\<close>\<close>

text \<open>
  The values \<open>JSON.parse\<close> returns. An object keeps its members in the order of
  the text; a later duplicate of a key is the one a property read sees. A number is
  kept as its literal: its conversion to a double is not modelled.
\<close>

datatype json =
    JNull
  | JBool bool
  | JNumber jsstring
  | JString jsstring
  | JArray "json list"
  | JObject "(jsstring \<times> json) list"

definition is_ws :: "16 word \<Rightarrow> bool" where
  "is_ws c = (c = 0x20 \<or> c = 0x09 \<or> c = 0x0A \<or> c = 0x0D)"

definition skip_ws :: "jsstring \<Rightarrow> jsstring" where
  "skip_ws s = dropWhile is_ws s"

definition is_digit :: "16 word \<Rightarrow> bool" where
  "is_digit c = (0x30 \<le> c \<and> c \<le> 0x39)"

definition hex_val :: "16 word \<Rightarrow> 16 word option" where
  "hex_val c =
     (if 0x30 \<le> c \<and> c \<le> 0x39 then Some (c - 0x30)
      else if 0x41 \<le> c \<and> c \<le> 0x46 then Some (c - 0x37)
      else if 0x61 \<le> c \<and> c \<le> 0x66 then Some (c - 0x57)
      else None)"

definition unescape :: "16 word \<Rightarrow> 16 word option" where
  "unescape e =
     (if e = 0x22 \<or> e = 0x5C \<or> e = 0x2F then Some e
      else if e = 0x62 then Some 0x08
      else if e = 0x66 then Some 0x0C
      else if e = 0x6E then Some 0x0A
      else if e = 0x72 then Some 0x0D
      else if e = 0x74 then Some 0x09
      else None)"

text \<open>The characters of a string literal, after its opening quote, up to the closing
  quote: the string's value and the rest of the input.\<close>

fun parse_chars :: "jsstring \<Rightarrow> (jsstring \<times> jsstring) option" where
  "parse_chars [] = None"
| "parse_chars (c # cs) =
     (if c = 0x22 then Some ([], cs)
      else if c < 0x20 then None
      else if c = 0x5C then
        (case cs of
           [] \<Rightarrow> None
         | e # es \<Rightarrow>
             if e = 0x75 then
               (case es of
                  h1 # h2 # h3 # h4 # rest \<Rightarrow>
                    (case (hex_val h1, hex_val h2, hex_val h3, hex_val h4) of
                       (Some a, Some b, Some c', Some d) \<Rightarrow>
                         (case parse_chars rest of
                            None \<Rightarrow> None
                          | Some (str, r) \<Rightarrow>
                              Some ((push_bit 12 a OR push_bit 8 b OR push_bit 4 c' OR d) # str, r))
                     | _ \<Rightarrow> None)
                | _ \<Rightarrow> None)
             else
               (case unescape e of
                  None \<Rightarrow> None
                | Some u \<Rightarrow>
                    (case parse_chars es of
                       None \<Rightarrow> None
                     | Some (str, r) \<Rightarrow> Some (u # str, r))))
      else
        (case parse_chars cs of
           None \<Rightarrow> None
         | Some (str, r) \<Rightarrow> Some (c # str, r)))"

text \<open>A number literal: \<open>-? (0 | [1-9][0-9]*) (. [0-9]+)? ([eE] [+-]? [0-9]+)?\<close>.\<close>

definition parse_digits :: "jsstring \<Rightarrow> (jsstring \<times> jsstring) option" where
  "parse_digits s =
     (if takeWhile is_digit s = [] then None
      else Some (takeWhile is_digit s, dropWhile is_digit s))"

definition parse_int :: "jsstring \<Rightarrow> (jsstring \<times> jsstring) option" where
  "parse_int s =
     (case s of
        [] \<Rightarrow> None
      | c # cs \<Rightarrow> if c = 0x30 then Some ([c], cs) else parse_digits s)"

definition parse_frac :: "jsstring \<Rightarrow> (jsstring \<times> jsstring) option" where
  "parse_frac s =
     (case s of
        [] \<Rightarrow> Some ([], s)
      | c # cs \<Rightarrow>
          if c = 0x2E then
            (case parse_digits cs of None \<Rightarrow> None | Some (ds, r) \<Rightarrow> Some (c # ds, r))
          else Some ([], s))"

definition parse_exp :: "jsstring \<Rightarrow> (jsstring \<times> jsstring) option" where
  "parse_exp s =
     (case s of
        [] \<Rightarrow> Some ([], s)
      | c # cs \<Rightarrow>
          if c = 0x65 \<or> c = 0x45 then
            (case cs of
               [] \<Rightarrow> None
             | sg # ds \<Rightarrow>
                 if sg = 0x2B \<or> sg = 0x2D then
                   (case parse_digits ds of
                      None \<Rightarrow> None
                    | Some (xs, r) \<Rightarrow> Some (c # sg # xs, r))
                 else
                   (case parse_digits cs of
                      None \<Rightarrow> None
                    | Some (xs, r) \<Rightarrow> Some (c # xs, r)))
          else Some ([], s))"

definition parse_number :: "jsstring \<Rightarrow> (jsstring \<times> jsstring) option" where
  "parse_number s =
     (let (sign, s1) = (case s of
                          [] \<Rightarrow> ([], s)
                        | c # cs \<Rightarrow> if c = 0x2D then ([c], cs) else ([], s))
      in case parse_int s1 of
           None \<Rightarrow> None
         | Some (ip, s2) \<Rightarrow>
             (case parse_frac s2 of
                None \<Rightarrow> None
              | Some (fp, s3) \<Rightarrow>
                  (case parse_exp s3 of
                     None \<Rightarrow> None
                   | Some (ep, s4) \<Rightarrow> Some (sign @ ip @ fp @ ep, s4))))"

text \<open>
  A value, the elements of an array after its first non-blank character, and the
  members of an object likewise. The first argument bounds the number of nested calls;
  \<open>JSON_parse\<close> starts it above the length of the text, and each nested call follows
  at least one consumed character.
\<close>

fun parse_value :: "nat \<Rightarrow> jsstring \<Rightarrow> (json \<times> jsstring) option"
  and parse_elements :: "nat \<Rightarrow> jsstring \<Rightarrow> (json list \<times> jsstring) option"
  and parse_members :: "nat \<Rightarrow> jsstring \<Rightarrow> ((jsstring \<times> json) list \<times> jsstring) option"
where
  "parse_value 0 s = None"
| "parse_value (Suc n) s =
     (case skip_ws s of
        [] \<Rightarrow> None
      | c # cs \<Rightarrow>
          if c = 0x7B then
            (case skip_ws cs of
               [] \<Rightarrow> None
             | d # ds \<Rightarrow>
                 if d = 0x7D then Some (JObject [], ds)
                 else (case parse_members n (d # ds) of
                         None \<Rightarrow> None
                       | Some (ms, r) \<Rightarrow> Some (JObject ms, r)))
          else if c = 0x5B then
            (case skip_ws cs of
               [] \<Rightarrow> None
             | d # ds \<Rightarrow>
                 if d = 0x5D then Some (JArray [], ds)
                 else (case parse_elements n (d # ds) of
                         None \<Rightarrow> None
                       | Some (vs, r) \<Rightarrow> Some (JArray vs, r)))
          else if c = 0x22 then
            (case parse_chars cs of
               None \<Rightarrow> None
             | Some (str, r) \<Rightarrow> Some (JString str, r))
          else if prefix (js ''true'') (c # cs) then Some (JBool True, drop 4 (c # cs))
          else if prefix (js ''false'') (c # cs) then Some (JBool False, drop 5 (c # cs))
          else if prefix (js ''null'') (c # cs) then Some (JNull, drop 4 (c # cs))
          else (case parse_number (c # cs) of
                  None \<Rightarrow> None
                | Some (lexeme, r) \<Rightarrow> Some (JNumber lexeme, r)))"
| "parse_elements 0 s = None"
| "parse_elements (Suc n) s =
     (case parse_value n s of
        None \<Rightarrow> None
      | Some (v, r) \<Rightarrow>
          (case skip_ws r of
             [] \<Rightarrow> None
           | c # cs \<Rightarrow>
               if c = 0x5D then Some ([v], cs)
               else if c = 0x2C then
                 (case parse_elements n cs of
                    None \<Rightarrow> None
                  | Some (vs, r') \<Rightarrow> Some (v # vs, r'))
               else None))"
| "parse_members 0 s = None"
| "parse_members (Suc n) s =
     (case skip_ws s of
        [] \<Rightarrow> None
      | q # cs \<Rightarrow>
          if q \<noteq> 0x22 then None
          else
            (case parse_chars cs of
               None \<Rightarrow> None
             | Some (k, r) \<Rightarrow>
                 (case skip_ws r of
                    [] \<Rightarrow> None
                  | colon # r1 \<Rightarrow>
                      if colon \<noteq> 0x3A then None
                      else
                        (case parse_value n r1 of
                           None \<Rightarrow> None
                         | Some (v, r2) \<Rightarrow>
                             (case skip_ws r2 of
                                [] \<Rightarrow> None
                              | c # r3 \<Rightarrow>
                                  if c = 0x7D then Some ([(k, v)], r3)
                                  else if c = 0x2C then
                                    (case parse_members n r3 of
                                       None \<Rightarrow> None
                                     | Some (ms, r') \<Rightarrow> Some ((k, v) # ms, r'))
                                  else None)))))"

text \<open>\<open>JSON.parse(text)\<close>: \<open>None\<close> is the SyntaxError it throws.\<close>

definition JSON_parse :: "jsstring \<Rightarrow> json option" where
  "JSON_parse s =
     (case parse_value (Suc (length s)) s of
        None \<Rightarrow> None
      | Some (v, r) \<Rightarrow> if skip_ws r = [] then Some v else None)"

text \<open>
  The statement \<open>console.log(`[Chat] Event: ${eventData.type}`)\<close> stands between
  the parse and the send, inside the same \<open>try\<close>. Reading \<open>.type\<close> of \<open>null\<close>
  throws a TypeError; so does the conversion of the property to a string when that is
  an object with an own member \<open>toString\<close> (which JSON cannot make callable), or an
  array whose \<open>join\<close> meets one.
\<close>

fun toString_throws :: "json \<Rightarrow> bool" where
  "toString_throws (JObject ms) = (js ''toString'' \<in> fst ` set ms)"
| "toString_throws (JArray vs) = (\<exists>v\<in>set vs. toString_throws v)"
| "toString_throws v = False"

definition get_member :: "jsstring \<Rightarrow> (jsstring \<times> json) list \<Rightarrow> json option" where
  "get_member k ms = map_of (rev ms) k"

definition log_throws :: "json \<Rightarrow> bool" where
  "log_throws eventData =
     (case eventData of
        JNull \<Rightarrow> True
      | JObject ms \<Rightarrow>
          (case get_member (js ''type'') ms of
             None \<Rightarrow> False
           | Some t \<Rightarrow> toString_throws t)
      | _ \<Rightarrow> False)"

section \<open>The stream proxy: \<open>chat:stream\<close> and \<open>chat:cancel\<close>\<close>

text \<open>\<open>buffer.split('\n')\<close>: never empty; its last element is the text after the
  last newline.\<close>

fun split_nl :: "jsstring \<Rightarrow> jsstring list" where
  "split_nl [] = [[]]"
| "split_nl (c # cs) =
     (if c = 0x0A then [] # split_nl cs
      else (case split_nl cs of
              [] \<Rightarrow> [[c]]
            | l # ls \<Rightarrow> (c # l) # ls))"

text \<open>\<open>lines.pop() || ''\<close>: the removed last element, or \<open>''\<close> when \<open>pop\<close>
  gives \<open>undefined\<close> (an empty array) or the empty string.\<close>

definition pop_or_empty :: "jsstring list \<Rightarrow> jsstring" where
  "pop_or_empty lines = (if lines = [] then [] else last lines)"

text \<open>
  \<^verbatim>\<open>
  if (line.startsWith('data: ')) {
    try {
      const eventData = JSON.parse(line.slice(6));
      console.log(`[Chat] Event: ${eventData.type}`);
      sender.send('chat:event', eventData);
    } catch (e) { }
  }
  \<close>
  The events one line sends.
\<close>

definition process_line :: "jsstring \<Rightarrow> json list" where
  "process_line line =
     (if prefix (js ''data: '') line then
        (case JSON_parse (drop 6 line) of
           None \<Rightarrow> []
         | Some eventData \<Rightarrow> if log_throws eventData then [] else [eventData])
      else [])"

text \<open>
  The body of \<open>res.on('data', ...)\<close> on the text of a chunk: the events sent, in
  order, and the new buffer.
  \<^verbatim>\<open>
  buffer += chunk.toString();
  const lines = buffer.split('\n');
  buffer = lines.pop() || '';
  for (const line of lines) { ... }
  \<close>
\<close>

definition feed :: "jsstring \<Rightarrow> jsstring \<Rightarrow> json list \<times> jsstring" where
  "feed buf text =
     (let lines = split_nl (buf @ text)
      in (concat (map process_line (butlast lines)), pop_or_empty lines))"

text \<open>Template literals print a status code in decimal.\<close>

function decimal :: "nat \<Rightarrow> jsstring" where
  "decimal n = (if n < 10 then [0x30 + of_nat n]
                else decimal (n div 10) @ [0x30 + of_nat (n mod 10)])"
  by pat_completeness auto
termination
  by (relation "measure id") auto

declare decimal.simps [simp del]

text \<open>
  The state the handlers of \<open>chat:stream\<close> and \<open>chat:cancel\<close> read and write:
  the module variable \<open>currentChatRequest\<close> (a request handle, a number), the
  requests made with \<open>http.request\<close> (oldest first), the requests \<open>destroy()\<close>
  was called on, the request bodies written, the events sent to the renderer with
  \<open>sender.send('chat:event', ...)\<close> (oldest first), and for every request the
  listeners of its call with their closure variable (\<open>phase\<close>; \<open>Idle\<close>: no such
  call was made), whether the \<open>data\<close> listeners of its response have been removed
  (\<open>dumped\<close>), and the promise of its call (\<open>result\<close>; \<open>None\<close> while pending).
\<close>

record chat_result =
  success :: bool
  error :: "jsstring option"

datatype phase =
    Idle
  | Connecting
  | Streaming jsstring
  | ErrorBody nat jsstring

record post_body =
  message :: jsstring
  conversation_history :: "(jsstring \<times> jsstring) list"
  model :: jsstring

record chat =
  currentChatRequest :: "nat option"
  requests :: "nat list"
  destroyed :: "nat list"
  posted :: "post_body list"
  sent :: "json list"
  phase :: "nat \<Rightarrow> phase"
  dumped :: "nat \<Rightarrow> bool"
  result :: "nat \<Rightarrow> chat_result option"

text \<open>The arguments of a call, as the renderer passes them (\<open>None\<close>: left out),
  and the one setting of the configuration store the handler reads.\<close>

record chat_args =
  arg_message :: jsstring
  arg_conversationHistory :: "(jsstring \<times> jsstring) list option"
  arg_model :: "jsstring option"

record store =
  store_model :: jsstring

text \<open>\<open>a || d\<close> for a string or \<open>undefined\<close> \<open>a\<close>: both \<open>undefined\<close> and
  \<open>''\<close> are falsy.\<close>

fun or_else :: "jsstring option \<Rightarrow> jsstring \<Rightarrow> jsstring" where
  "or_else None d = d"
| "or_else (Some a) d = (if a = [] then d else a)"

text \<open>
  \<^verbatim>\<open>
  const postData = JSON.stringify({
    message,
    conversation_history: conversationHistory || [],
    model: model || store.get('model') || 'gpt-5.2',
  });
  \<close>
  The object that is serialised.
\<close>

definition postData :: "store \<Rightarrow> chat_args \<Rightarrow> post_body" where
  "postData st a =
     \<lparr>message = arg_message a,
      conversation_history = (case arg_conversationHistory a of None \<Rightarrow> [] | Some h \<Rightarrow> h),
      model = or_else (Some (or_else (arg_model a) (store_model st))) (js ''gpt-5.2'')\<rparr>"

text \<open>The handler of \<open>chat:stream\<close> up to \<open>currentChatRequest.end()\<close>: a new
  promise, a new request \<open>req\<close> with its listeners, registered in the variable in
  place of whatever was there, and the body written.\<close>

definition chat_stream :: "store \<Rightarrow> nat \<Rightarrow> chat_args \<Rightarrow> chat \<Rightarrow> chat" where
  "chat_stream st req a s =
     s\<lparr>currentChatRequest := Some req,
       requests := requests s @ [req],
       posted := posted s @ [postData st a],
       phase := (phase s)(req := Connecting),
       dumped := (dumped s)(req := False),
       result := (result s)(req := None)\<rparr>"

text \<open>\<open>resolve(r)\<close> of the call of request \<open>req\<close>: a promise settles once; a
  later call is ignored.\<close>

definition resolve :: "nat \<Rightarrow> chat_result \<Rightarrow> chat \<Rightarrow> chat" where
  "resolve req r s =
     (case result s req of None \<Rightarrow> s\<lparr>result := (result s)(req := Some r)\<rparr> | Some _ \<Rightarrow> s)"

definition error_event :: "jsstring \<Rightarrow> json" where
  "error_event msg = JObject [(js ''type'', JString (js ''error'')), (js ''message'', JString msg)]"

text \<open>The template literal \<open>`HTTP ${res.statusCode}: ${errorData}`\<close>.\<close>

definition http_error_message :: "nat \<Rightarrow> jsstring \<Rightarrow> jsstring" where
  "http_error_message statusCode errorData = js ''HTTP '' @ decimal statusCode @ js '': '' @ errorData"

text \<open>
  What the transport can call a request back with: the response callback of
  \<open>http.request\<close> with the status code, and the events \<open>data\<close>, \<open>end\<close> and
  \<open>error\<close> of the response and \<open>error\<close> of the request. \<open>deliver req\<close> runs the
  listener that the call of request \<open>req\<close> registered for the callback, if there is
  one: before the response only the request's \<open>error\<close> listener exists; a response
  with status 200 registers the streaming listeners, any other status the two listeners
  that collect the error body (\<open>errorData += chunk\<close> decodes the chunk as
  \<open>chunk.toString()\<close> does). The listeners of every call write the one variable
  \<open>currentChatRequest\<close>. A response that was dumped has no \<open>data\<close> listener.
\<close>

datatype callback =
    Response nat
  | ResData buffer
  | ResEnd
  | ResError jsstring
  | ReqError jsstring

fun deliver :: "nat \<Rightarrow> callback \<Rightarrow> chat \<Rightarrow> chat" where
  "deliver req (Response statusCode) s =
     (case phase s req of
        Connecting \<Rightarrow>
          s\<lparr>phase := (phase s)
                (req := (if statusCode \<noteq> 200 then ErrorBody statusCode [] else Streaming []))\<rparr>
      | _ \<Rightarrow> s)"
| "deliver req (ResData chunk) s =
     (if dumped s req then s
      else
        (case phase s req of
           Idle \<Rightarrow> s
         | Connecting \<Rightarrow> s
         | Streaming buf \<Rightarrow>
             s\<lparr>sent := sent s @ fst (feed buf (toString chunk)),
               phase := (phase s)(req := Streaming (snd (feed buf (toString chunk))))\<rparr>
         | ErrorBody statusCode errorData \<Rightarrow>
             s\<lparr>phase := (phase s)(req := ErrorBody statusCode (errorData @ toString chunk))\<rparr>))"
| "deliver req ResEnd s =
     (case phase s req of
        Idle \<Rightarrow> s
      | Connecting \<Rightarrow> s
      | Streaming buf \<Rightarrow>
          resolve req \<lparr>success = True, error = None\<rparr> (s\<lparr>currentChatRequest := None\<rparr>)
      | ErrorBody statusCode errorData \<Rightarrow>
          resolve req \<lparr>success = False, error = Some errorData\<rparr>
            (s\<lparr>sent := sent s @ [error_event (http_error_message statusCode errorData)]\<rparr>))"
| "deliver req (ResError msg) s =
     (case phase s req of
        Streaming buf \<Rightarrow>
          resolve req \<lparr>success = False, error = Some msg\<rparr>
            (s\<lparr>sent := sent s @ [error_event msg], currentChatRequest := None\<rparr>)
      | _ \<Rightarrow> s)"
| "deliver req (ReqError msg) s =
     (case phase s req of
        Idle \<Rightarrow> s
      | _ \<Rightarrow>
          resolve req \<lparr>success = False, error = Some msg\<rparr>
            (s\<lparr>sent := sent s @ [error_event msg], currentChatRequest := None\<rparr>))"

fun run :: "nat \<Rightarrow> callback list \<Rightarrow> chat \<Rightarrow> chat" where
  "run req [] s = s"
| "run req (cb # cbs) s = run req cbs (deliver req cb s)"

text \<open>
  \<^verbatim>\<open>
  ipcMain.handle('chat:cancel', async () => {
    if (currentChatRequest) {
      currentChatRequest.destroy();
      currentChatRequest = null;
      return { cancelled: true };
    }
    return { cancelled: false };
  });
  \<close>
  The new state and the field \<open>cancelled\<close> of the answer. \<open>destroy()\<close> of a request
  whose response has arrived dumps that response, which removes its \<open>data\<close>
  listeners (\<open>if (this.res) this.res._dump()\<close> in Node's \<open>ClientRequest\<close>); the
  listeners of \<open>end\<close> and \<open>error\<close> stay.
\<close>

fun has_response :: "phase \<Rightarrow> bool" where
  "has_response (Streaming buf) = True"
| "has_response (ErrorBody statusCode errorData) = True"
| "has_response p = False"

definition chat_cancel :: "chat \<Rightarrow> chat \<times> bool" where
  "chat_cancel s =
     (case currentChatRequest s of
        Some req \<Rightarrow>
          (s\<lparr>destroyed := destroyed s @ [req],
             dumped := (dumped s)(req := dumped s req \<or> has_response (phase s req)),
             currentChatRequest := None\<rparr>, True)
      | None \<Rightarrow> (s, False))"

text \<open>The application before any chat request.\<close>

definition idle :: chat where
  "idle = \<lparr>currentChatRequest = None, requests = [], destroyed = [], posted = [], sent = [],
           phase = (\<lambda>req. Idle), dumped = (\<lambda>req. False), result = (\<lambda>req. None)\<rparr>"

text \<open>
  What happens to the two handlers over time: a call of \<open>chat:stream\<close> (with the
  store it reads, the handle of the request it makes, and its arguments), a callback of
  the transport to a request, and a call of \<open>chat:cancel\<close>.
\<close>

datatype event =
    Start store nat chat_args
  | Callback nat callback
  | Cancel

fun step :: "event \<Rightarrow> chat \<Rightarrow> chat" where
  "step (Start st req a) s = chat_stream st req a s"
| "step (Callback req cb) s = deliver req cb s"
| "step Cancel s = fst (chat_cancel s)"

fun play :: "event list \<Rightarrow> chat \<Rightarrow> chat" where
  "play [] s = s"
| "play (e # es) s = play es (step e s)"

section \<open>Health checker: \<open>checkBackendHealth\<close>\<close>

text \<open>
  A request of a probe is named by the way it came about: \<open>[]\<close> is the first
  request, \<open>p @ [k]\<close> the request that the \<open>k\<close>-th callback of request \<open>p\<close>
  scheduled. What the transport calls a request back with is given from outside: each
  callback (the response callback with a status code, the request's \<open>error\<close> event
  with the error's message, its \<open>timeout\<close> event) with the milliseconds since the
  request was sent, and for each scheduled request the milliseconds by which its timer
  fires late. A timer never fires early.
\<close>

datatype probe_callback =
    OnResponse nat
  | OnError jsstring
  | OnTimeout

record network =
  callbacks_of :: "nat list \<Rightarrow> (nat \<times> probe_callback) list"
  lateness :: "nat list \<Rightarrow> nat"

text \<open>\<open>setTimeout(callback, delay)\<close>: Node sets a delay above 2147483647 ms or
  below 1 ms to 1 ms. \<open>timer_delay\<close> is the time the timer waits at least.\<close>

definition timer_delay :: "nat \<Rightarrow> nat" where
  "timer_delay delay = (if delay < 1 \<or> 2147483647 < delay then 1 else delay)"

text \<open>What a probe does, each with its time: a GET sent, a request destroyed, a timer
  set with a delay, and the calls of \<open>resolve\<close> and of \<open>reject\<close> (with the
  message of the error).\<close>

datatype call =
    HttpGet
  | ReqDestroy
  | SetTimeout nat
  | Resolve bool
  | Reject jsstring

text \<open>
  \<^verbatim>\<open>
  const attempt = (attemptsLeft) => {
    const req = http.request(options, (res) => {
      if (res.statusCode === 200) { resolve(true); }
      else if (attemptsLeft > 0) { setTimeout(() => attempt(attemptsLeft - 1), delay); }
      else { reject(new Error(`Health check failed: ${res.statusCode}`)); }
    });
    req.on('error', (error) => {
      if (attemptsLeft > 0) { setTimeout(() => attempt(attemptsLeft - 1), delay); }
      else { reject(error); }
    });
    req.on('timeout', () => {
      req.destroy();
      if (attemptsLeft > 0) { setTimeout(() => attempt(attemptsLeft - 1), delay); }
      else { reject(new Error('Health check timeout')); }
    });
    req.end();
  };
  \<close>
  \<open>attempt net delay p t attemptsLeft\<close> is request \<open>p\<close>, sent at time \<open>t\<close>: the
  calls made by it, by its listeners and by the requests they schedule.
\<close>

fun attempt :: "network \<Rightarrow> nat \<Rightarrow> nat list \<Rightarrow> nat \<Rightarrow> nat \<Rightarrow> (nat \<times> call) list" where
  "attempt net delay p t attemptsLeft =
     (t, HttpGet) #
     concat (map
       (\<lambda>(k, dt, cb).
          (case cb of
             OnResponse statusCode \<Rightarrow>
               if statusCode = 200 then [(t + dt, Resolve True)]
               else if attemptsLeft > 0 then
                 (t + dt, SetTimeout delay) #
                 attempt net delay (p @ [k]) (t + dt + timer_delay delay + lateness net (p @ [k]))
                   (attemptsLeft - 1)
               else [(t + dt, Reject (js ''Health check failed: '' @ decimal statusCode))]
           | OnError err \<Rightarrow>
               if attemptsLeft > 0 then
                 (t + dt, SetTimeout delay) #
                 attempt net delay (p @ [k]) (t + dt + timer_delay delay + lateness net (p @ [k]))
                   (attemptsLeft - 1)
               else [(t + dt, Reject err)]
           | OnTimeout \<Rightarrow>
               (t + dt, ReqDestroy) #
               (if attemptsLeft > 0 then
                  (t + dt, SetTimeout delay) #
                  attempt net delay (p @ [k]) (t + dt + timer_delay delay + lateness net (p @ [k]))
                    (attemptsLeft - 1)
                else [(t + dt, Reject (js ''Health check timeout''))])))
       (enumerate 0 (callbacks_of net p)))"

declare attempt.simps [simp del]

text \<open>\<open>checkBackendHealth(retries, delay)\<close> called at time \<open>t\<close> (the defaults
  are \<open>retries = 1\<close> and \<open>delay = 500\<close>): all the calls of the probe.\<close>

definition checkBackendHealth :: "network \<Rightarrow> nat \<Rightarrow> nat \<Rightarrow> nat \<Rightarrow> (nat \<times> call) list" where
  "checkBackendHealth net retries delay t = attempt net delay [] t retries"

text \<open>
  A promise settles at the first call of \<open>resolve\<close> or \<open>reject\<close> and ignores the
  later ones. \<open>promise_of\<close> puts the calls in the order of their times (calls of the
  same time stay in the order above) and gives how the promise settles and when;
  \<open>None\<close>: it stays pending.
\<close>

datatype settled =
    Resolved bool
  | Rejected jsstring

fun settlements :: "(nat \<times> call) list \<Rightarrow> (settled \<times> nat) list" where
  "settlements [] = []"
| "settlements ((t, Resolve b) # tr) = (Resolved b, t) # settlements tr"
| "settlements ((t, Reject msg) # tr) = (Rejected msg, t) # settlements tr"
| "settlements (x # tr) = settlements tr"

definition promise_of :: "(nat \<times> call) list \<Rightarrow> (settled \<times> nat) option" where
  "promise_of tr = (case settlements (sort_key fst tr) of [] \<Rightarrow> None | x # _ \<Rightarrow> Some x)"

text \<open>The times of the GETs of a probe, and the delays of its timers.\<close>

definition get_times :: "(nat \<times> call) list \<Rightarrow> nat list" where
  "get_times tr = map fst (filter (\<lambda>x. snd x = HttpGet) tr)"

fun timer_delays :: "(nat \<times> call) list \<Rightarrow> nat list" where
  "timer_delays [] = []"
| "timer_delays ((t, SetTimeout d) # tr) = d # timer_delays tr"
| "timer_delays (x # tr) = timer_delays tr"

section \<open>Process supervisor: \<open>startPythonBackend\<close>\<close>

text \<open>
  One call of \<open>startPythonBackend\<close>: the module state, the promise the call returned
  (\<open>None\<close> while pending), whether the child was spawned (and with it the listeners
  and the 3000 ms timer set up), and the calls of the health probe the timer callback is
  awaiting.
\<close>

record start_state =
  globals :: supervisor
  promise :: "settled option"
  spawned :: bool
  probe :: "(nat \<times> call) list option"

definition settle :: "settled \<Rightarrow> start_state \<Rightarrow> start_state" where
  "settle r s = (case promise s of None \<Rightarrow> s\<lparr>promise := Some r\<rparr> | Some _ \<Rightarrow> s)"

text \<open>The synchronous part of the call: a missing script rejects and returns before
  anything is spawned; otherwise the child \<open>pid\<close> is spawned.\<close>

definition startPythonBackend :: "bool \<Rightarrow> jsstring \<Rightarrow> nat \<Rightarrow> supervisor \<Rightarrow> start_state" where
  "startPythonBackend scriptExists scriptPath pid g =
     (if \<not> scriptExists then
        \<lparr>globals = g, promise = Some (Rejected (js ''Python script not found: '' @ scriptPath)),
         spawned = False, probe = None\<rparr>
      else
        \<lparr>globals = g\<lparr>pythonProcess := Some pid\<rparr>, promise = None, spawned = True, probe = None\<rparr>)"

text \<open>
  What can happen afterwards: output of the child on stdout or stderr, its \<open>error\<close>
  and \<open>close\<close> events, the timer callback starting at a time \<open>t\<close> (it begins the
  probe \<open>checkBackendHealth(5, 1000)\<close> unless the readiness flag is set), and the
  probe's promise settling, which resumes the callback after its \<open>await\<close>.
  \<^verbatim>\<open>
  setTimeout(async () => {
    if (!isBackendReady) {
      try {
        await checkBackendHealth(5, 1000);
        isBackendReady = true;
        resolve(true);
      } catch (err) {
        resolve(false);
      }
    }
  }, 3000);
  \<close>
\<close>

datatype proc_event =
    Stdout jsstring
  | Stderr jsstring
  | ProcError jsstring
  | ProcClose int
  | GraceTimer nat
  | ProbeSettled

definition stdout_marker :: "jsstring \<Rightarrow> bool" where
  "stdout_marker m =
     (js_includes m (js ''Server started'') \<or> js_includes m (js ''Uvicorn running'')
      \<or> js_includes m (js ''Application startup complete''))"

definition stderr_marker :: "jsstring \<Rightarrow> bool" where
  "stderr_marker m =
     (js_includes m (js ''Uvicorn running'') \<or> js_includes m (js ''Started server'')
      \<or> js_includes m (js ''Application startup complete''))"

definition mark_ready :: "start_state \<Rightarrow> start_state" where
  "mark_ready s = settle (Resolved True) (s\<lparr>globals := (globals s)\<lparr>isBackendReady := True\<rparr>\<rparr>)"

fun handle :: "network \<Rightarrow> proc_event \<Rightarrow> start_state \<Rightarrow> start_state" where
  "handle net (Stdout m) s = (if stdout_marker m then mark_ready s else s)"
| "handle net (Stderr m) s = (if stderr_marker m then mark_ready s else s)"
| "handle net (ProcError err) s = settle (Rejected err) s"
| "handle net (ProcClose code) s =
     s\<lparr>globals := (globals s)\<lparr>isBackendReady := False, pythonProcess := None\<rparr>\<rparr>"
| "handle net (GraceTimer t) s =
     (if \<not> isBackendReady (globals s) then s\<lparr>probe := Some (checkBackendHealth net 5 1000 t)\<rparr>
      else s)"
| "handle net ProbeSettled s =
     (case probe s of
        None \<Rightarrow> s
      | Some tr \<Rightarrow>
          (case promise_of tr of
             None \<Rightarrow> s
           | Some (Resolved b, t) \<Rightarrow> mark_ready (s\<lparr>probe := None\<rparr>)
           | Some (Rejected msg, t) \<Rightarrow> settle (Resolved False) (s\<lparr>probe := None\<rparr>)))"

text \<open>Events reach the handlers only when the child was spawned.\<close>

fun events :: "network \<Rightarrow> proc_event list \<Rightarrow> start_state \<Rightarrow> start_state" where
  "events net [] s = s"
| "events net (e # es) s = events net es (if spawned s then handle net e s else s)"

section \<open>Auxiliary definitions and sample inputs\<close>

text \<open>The data listener run over the texts of several chunks in turn.\<close>

fun feed_all :: "jsstring \<Rightarrow> jsstring list \<Rightarrow> json list \<times> jsstring" where
  "feed_all buf [] = ([], buf)"
| "feed_all buf (t # ts) =
     (fst (feed buf t) @ fst (feed_all (snd (feed buf t)) ts),
      snd (feed_all (snd (feed buf t)) ts))"

text \<open>A store with the default model, a call that leaves the model out, the state
  after that call as request 1, and the state after its response with status 200.\<close>

definition sample_store :: store where
  "sample_store = \<lparr>store_model = js ''gpt-5.2''\<rparr>"

definition sample_args :: chat_args where
  "sample_args = \<lparr>arg_message = js ''Hello'', arg_conversationHistory = None, arg_model = None\<rparr>"

definition connecting :: chat where
  "connecting = chat_stream sample_store 1 sample_args idle"

definition streaming :: chat where
  "streaming = deliver 1 (Response 200) connecting"

text \<open>
  A call is pending while its promise is not settled. A request is active when its call
  is pending and \<open>destroy()\<close> was not called on it.
\<close>

definition pending :: "chat \<Rightarrow> nat \<Rightarrow> bool" where
  "pending s r = (r \<in> set (requests s) \<and> result s r = None)"

definition active :: "chat \<Rightarrow> nat \<Rightarrow> bool" where
  "active s r = (pending s r \<and> r \<notin> set (destroyed s))"

text \<open>
  Calls made one at a time: a call of \<open>chat:stream\<close> is made, with a new request,
  only when no earlier call is pending; the transport calls back only the latest
  request; and every response has status 200.
\<close>

fun allowed :: "event \<Rightarrow> chat \<Rightarrow> bool" where
  "allowed (Start st req a) s =
     (req \<notin> set (requests s) \<and> list_all (\<lambda>r. \<not> pending s r) (requests s))"
| "allowed (Callback req cb) s =
     (requests s \<noteq> [] \<and> req = last (requests s)
      \<and> (case cb of Response statusCode \<Rightarrow> statusCode = 200 | _ \<Rightarrow> True))"
| "allowed Cancel s = True"

fun orderly :: "event list \<Rightarrow> chat \<Rightarrow> bool" where
  "orderly [] s = True"
| "orderly (e # es) s = (allowed e s \<and> orderly es (step e s))"

text \<open>The two chunks of Scenario B of the specification.\<close>

definition scenario_B_1 :: buffer where
  "scenario_B_1 = bytes ''data: {\"type\":\"token\",\"content\":\"Hi\"}'' @ [0x0A, 0x0A]
                    @ bytes ''data: {\"typ''"

definition scenario_B_2 :: buffer where
  "scenario_B_2 = bytes ''e\":\"done\",\"content\":\"Hi\"}'' @ [0x0A, 0x0A]"

text \<open>A frame \<open>data: {"type":"token","content":"..."}\<close> followed by an empty line,
  whose content is the one letter U+00E9, the two bytes C3 A9 in UTF-8, cut between
  these two bytes.\<close>

definition accent_1 :: buffer where
  "accent_1 = bytes ''data: {\"type\":\"token\",\"content\":\"'' @ [0xC3]"

definition accent_2 :: buffer where
  "accent_2 = [0xA9] @ bytes ''\"}'' @ [0x0A, 0x0A]"

text \<open>A backend nothing listens for: every request is refused after 2 ms. A backend
  that accepts connections and never answers: every request gets the \<open>timeout\<close>
  event after the 5000 ms of its \<open>timeout\<close> option and, destroyed by the listener
  of that event before any response, the \<open>error\<close> event \<open>socket hang up\<close>.\<close>

definition refusing :: network where
  "refusing = \<lparr>callbacks_of = (\<lambda>p. [(2, OnError (js ''connect ECONNREFUSED 127.0.0.1:8765''))]),
                lateness = (\<lambda>p. 0)\<rparr>"

definition hanging :: network where
  "hanging = \<lparr>callbacks_of = (\<lambda>p. [(5000, OnTimeout), (5000, OnError (js ''socket hang up''))]),
               lateness = (\<lambda>p. 0)\<rparr>"

text \<open>A backend that comes up during a probe: the first request is not answered, the
  request scheduled by its \<open>timeout\<close> listener is refused, the request scheduled by
  its \<open>error\<close> listener gets status 200 after 50 ms.\<close>

definition racing :: network where
  "racing =
     \<lparr>callbacks_of =
        (\<lambda>p. if p = [] then [(5000, OnTimeout), (5000, OnError (js ''socket hang up''))]
             else if p = [0] then [(2, OnError (js ''connect ECONNREFUSED 127.0.0.1:8765''))]
             else [(50, OnResponse 200)]),
      lateness = (\<lambda>p. 0)\<rparr>"

text \<open>A target that is always unreachable: every request ends in the \<open>error\<close>
  event of a failed connection, and in nothing else.\<close>

definition refuses :: "network \<Rightarrow> bool" where
  "refuses net = (\<forall>p. \<exists>dt err. callbacks_of net p = [(dt, OnError err)])"

text \<open>
  A probe all of whose requests are called back exactly once. Its requests form one
  chain \<open>[]\<close>, \<open>[0]\<close>, \<open>[0, 0]\<close>, ...; \<open>chain net p n\<close> lists the callbacks of
  the first \<open>n + 1\<close> requests from \<open>p\<close> on. \<open>reason\<close> is the message of the
  error a failed attempt is rejected with when no retry is left; \<open>final_call\<close> and
  \<open>gets_sent\<close> say how a chain of callbacks should settle the promise and how many
  GETs it should take: success at the first 200, one GET per callback up to there.
\<close>

definition called_back_once :: "network \<Rightarrow> bool" where
  "called_back_once net = (\<forall>p. \<exists>dt cb. callbacks_of net p = [(dt, cb)])"

definition callback_of :: "network \<Rightarrow> nat list \<Rightarrow> probe_callback" where
  "callback_of net p = snd (hd (callbacks_of net p))"

definition chain :: "network \<Rightarrow> nat list \<Rightarrow> nat \<Rightarrow> probe_callback list" where
  "chain net p n = map (\<lambda>i. callback_of net (p @ replicate i 0)) [0..<Suc n]"

fun reason :: "probe_callback \<Rightarrow> jsstring" where
  "reason (OnResponse statusCode) = js ''Health check failed: '' @ decimal statusCode"
| "reason (OnError err) = err"
| "reason OnTimeout = js ''Health check timeout''"

definition final_call :: "probe_callback list \<Rightarrow> call" where
  "final_call cbs = (if OnResponse 200 \<in> set cbs then Resolve True else Reject (reason (last cbs)))"

definition gets_sent :: "probe_callback list \<Rightarrow> nat" where
  "gets_sent cbs = min (Suc (length (takeWhile (\<lambda>c. c \<noteq> OnResponse 200) cbs))) (length cbs)"

text \<open>The events of a child that show no readiness marker and report no error.\<close>

fun quiet :: "proc_event \<Rightarrow> bool" where
  "quiet (Stdout m) = (\<not> stdout_marker m)"
| "quiet (Stderr m) = (\<not> stderr_marker m)"
| "quiet (ProcClose code) = True"
| "quiet e = False"

text \<open>The module state at application start.\<close>

definition stopped :: supervisor where
  "stopped = \<lparr>pythonProcess = None, isBackendReady = False, kills = []\<rparr>"

section \<open>Stopping the backend\<close>

text \<open>
  C7. \<open>stopPythonBackend\<close> is idempotent. With no process it returns the state as it
  was (nothing is signalled, nothing changes). With a process \<open>p\<close> it sends SIGTERM to
  \<open>p\<close> and, in the same call, clears the handle and the readiness flag; no exit
  confirmation is awaited (the function has no suspension point). Hence a second call
  changes nothing: two calls equal one, signals included.
\<close>

theorem stopPythonBackend_idempotent:
  "stopPythonBackend (stopPythonBackend g) = stopPythonBackend g
   \<and> (pythonProcess g = None \<longrightarrow> stopPythonBackend g = g)
   \<and> (pythonProcess g = Some p \<longrightarrow>
        stopPythonBackend g =
          g\<lparr>kills := kills g @ [(p, ''SIGTERM'')], pythonProcess := None,
            isBackendReady := False\<rparr>)"
  by (simp add: stopPythonBackend_def split: option.splits)

theorem stopPythonBackend_idempotent_witness:
  "stopPythonBackend (stopPythonBackend
      \<lparr>pythonProcess = Some 7, isBackendReady = True, kills = []\<rparr>)
    = \<lparr>pythonProcess = None, isBackendReady = False, kills = [(7, ''SIGTERM'')]\<rparr>
   \<and> stopPythonBackend \<lparr>pythonProcess = None, isBackendReady = True, kills = []\<rparr>
    = \<lparr>pythonProcess = None, isBackendReady = True, kills = []\<rparr>"
  using stopPythonBackend_idempotent
          [of "\<lparr>pythonProcess = Some 7, isBackendReady = True, kills = []\<rparr>" 7]
        stopPythonBackend_idempotent
          [of "\<lparr>pythonProcess = None, isBackendReady = True, kills = []\<rparr>" 0]
  by (simp add: stopPythonBackend_def)

section \<open>Lines, chunks and the buffer\<close>

lemma split_nl_nonempty [simp]: "split_nl s \<noteq> []"
  by (induction s) (auto split: list.splits)

lemma split_nl_append:
  "split_nl (x @ y) = butlast (split_nl x) @ split_nl (last (split_nl x) @ y)"
proof (induction x)
  case Nil
  then show ?case by simp
next
  case (Cons c cs)
  show ?case
  proof (cases "c = 0x0A")
    case True
    then show ?thesis using Cons by simp
  next
    case False
    obtain l ls where sp: "split_nl cs = l # ls"
      by (cases "split_nl cs") auto
    show ?thesis
    proof (cases ls)
      case Nil
      then show ?thesis using False sp Cons by simp
    next
      case (Cons l' ls')
      then show ?thesis using False sp Cons.IH by simp
    qed
  qed
qed

lemma split_nl_roundtrip:
  "concat (map (\<lambda>l. l @ [0x0A]) (butlast (split_nl x))) @ last (split_nl x) = x"
proof (induction x)
  case Nil
  then show ?case by simp
next
  case (Cons c cs)
  obtain l ls where sp: "split_nl cs = l # ls"
    by (cases "split_nl cs") auto
  show ?case
  proof (cases "c = 0x0A")
    case True
    then show ?thesis using Cons by simp
  next
    case False
    then show ?thesis using Cons sp by (cases ls) auto
  qed
qed

lemma split_nl_no_newline: "l \<in> set (split_nl x) \<Longrightarrow> 0x0A \<notin> set l"
proof (induction x arbitrary: l)
  case Nil
  then show ?case by simp
next
  case (Cons c cs)
  obtain l0 ls where sp: "split_nl cs = l0 # ls"
    by (cases "split_nl cs") auto
  show ?case
  proof (cases "c = 0x0A")
    case True
    then show ?thesis using Cons by auto
  next
    case False
    then show ?thesis using Cons sp by auto
  qed
qed

lemma feed_append:
  "feed b (s @ t) =
     (fst (feed b s) @ fst (feed (snd (feed b s)) t), snd (feed (snd (feed b s)) t))"
proof -
  have "split_nl (b @ s @ t) =
          butlast (split_nl (b @ s)) @ split_nl (last (split_nl (b @ s)) @ t)"
    using split_nl_append [of "b @ s" t] by simp
  then show ?thesis
    by (simp add: feed_def Let_def pop_or_empty_def butlast_append)
qed

lemma split_nl_line: "0x0A \<notin> set b \<Longrightarrow> split_nl b = [b]"
  by (induction b) auto

lemma feed_buffer_no_newline: "0x0A \<notin> set (snd (feed b t))"
  using split_nl_no_newline [of "last (split_nl (b @ t))" "b @ t"]
  by (simp add: feed_def pop_or_empty_def Let_def)

lemma feed_empty: "0x0A \<notin> set b \<Longrightarrow> feed b [] = ([], b)"
  by (simp add: feed_def pop_or_empty_def split_nl_line)

lemma feed_all_concat: "0x0A \<notin> set b \<Longrightarrow> feed_all b ts = feed b (concat ts)"
proof (induction ts arbitrary: b)
  case Nil
  then show ?case by (simp add: feed_empty)
next
  case (Cons t ts)
  have "feed_all (snd (feed b t)) ts = feed (snd (feed b t)) (concat ts)"
    using Cons.IH feed_buffer_no_newline by blast
  then show ?case
    using feed_append [of b t "concat ts"] by simp
qed

lemma run_data:
  "phase s req = Streaming b \<Longrightarrow> \<not> dumped s req \<Longrightarrow>
   run req (map ResData chunks) s =
     s\<lparr>sent := sent s @ fst (feed_all b (map toString chunks)),
       phase := (phase s)(req := Streaming (snd (feed_all b (map toString chunks))))\<rparr>"
proof (induction chunks arbitrary: s b)
  case Nil
  then have "(phase s)(req := Streaming b) = phase s" by auto
  then show ?case by simp
next
  case (Cons c cs)
  let ?s' = "deliver req (ResData c) s"
  have ph: "phase ?s' req = Streaming (snd (feed b (toString c)))" and d: "\<not> dumped ?s' req"
    using Cons.prems by simp_all
  have "(\<lambda>a. if a = req then Streaming (snd (feed_all (snd (feed b (toString c)))
                                                       (map toString cs)))
             else if a = req then Streaming (snd (feed b (toString c))) else phase s a)
        = (\<lambda>a. if a = req then Streaming (snd (feed_all (snd (feed b (toString c)))
                                                         (map toString cs)))
               else phase s a)"
    by auto
  then show ?case
    using Cons.IH [OF ph d] Cons.prems by simp
qed

lemma toString_ascii: "\<forall>x\<in>set a. x < 0x80 \<Longrightarrow> toString (a @ b) = map ucast a @ toString b"
  by (induction a) auto

lemma toString_ascii_chunks:
  "\<forall>x\<in>set (concat chunks). x < 0x80 \<Longrightarrow>
   concat (map toString chunks) = toString (concat chunks)"
proof (induction chunks)
  case Nil
  then show ?case by simp
next
  case (Cons c cs)
  then show ?case
    using toString_ascii [of c "concat cs"] toString_ascii [of c "[]"] by simp
qed

lemma stream_split_invariant:
  assumes "phase s req = Streaming b" and "\<not> dumped s req" and "0x0A \<notin> set b"
    and "concat (map toString chunks) = concat (map toString chunks')"
  shows "run req (map ResData chunks) s = run req (map ResData chunks') s"
  using assms by (simp add: run_data feed_all_concat)

lemma stream_split_invariant_ascii:
  assumes "phase s req = Streaming b" and "\<not> dumped s req" and "0x0A \<notin> set b"
    and "concat chunks = concat chunks'" and "\<forall>x\<in>set (concat chunks). x < 0x80"
  shows "run req (map ResData chunks) s = run req (map ResData chunks') s"
  using assms stream_split_invariant [OF assms(1,2,3), of chunks chunks']
  by (simp add: toString_ascii_chunks)

section \<open>Cancelling with and without an active request\<close>

text \<open>
  While calls are made one at a time, the variable \<open>currentChatRequest\<close> holds a
  request exactly when that request is active; every call but the latest has settled,
  only requests that were made have been destroyed, and no listener collects an error
  body.
\<close>

lemma step_one_at_a_time:
  assumes reg: "\<forall>r. (currentChatRequest s = Some r) = active s r"
    and old: "\<forall>r\<in>set (butlast (requests s)). result s r \<noteq> None"
    and des: "set (destroyed s) \<subseteq> set (requests s)"
    and ph: "\<forall>r. \<not> (\<exists>st e. phase s r = ErrorBody st e)"
    and al: "allowed e s"
  shows "(\<forall>r. (currentChatRequest (step e s) = Some r) = active (step e s) r)
         \<and> (\<forall>r\<in>set (butlast (requests (step e s))). result (step e s) r \<noteq> None)
         \<and> set (destroyed (step e s)) \<subseteq> set (requests (step e s))
         \<and> (\<forall>r. \<not> (\<exists>st e'. phase (step e s) r = ErrorBody st e'))"
proof (cases e)
  case (Start st req a)
  have fresh: "req \<notin> set (requests s)" and settled: "\<forall>r\<in>set (requests s). result s r \<noteq> None"
    using al Start by (auto simp: list_all_iff pending_def)
  have "req \<notin> set (destroyed s)" using fresh des by auto
  then show ?thesis
    using Start fresh settled des ph
    by (auto simp: chat_stream_def active_def pending_def)
next
  case (Callback req cb)
  have ne: "requests s \<noteq> []" and latest: "req = last (requests s)"
    using al Callback by auto
  have others: "\<forall>r. r \<in> set (requests s) \<longrightarrow> r \<noteq> req \<longrightarrow> result s r \<noteq> None"
  proof (intro allI impI)
    fix r assume "r \<in> set (requests s)" and "r \<noteq> req"
    then have "r \<in> set (butlast (requests s))"
      using ne latest by (metis append_butlast_last_id in_set_conv_decomp_first
          rotate1.simps(2) set_ConsD set_rotate1)
    then show "result s r \<noteq> None" using old by blast
  qed
  have inb: "\<forall>r\<in>set (butlast (requests s)). r \<in> set (requests s)"
    by (auto dest: in_set_butlastD)
  show ?thesis
  proof (cases cb)
    case (Response statusCode)
    then have "statusCode = 200" using al Callback by simp
    then show ?thesis
      using Callback Response reg old des ph
      by (cases "phase s req") (auto simp: active_def pending_def)
  next
    case (ResData chunk)
    then show ?thesis
      using Callback reg old des ph
      by (cases "phase s req") (auto simp: active_def pending_def)
  next
    case ResEnd
    then show ?thesis
      using Callback reg old des ph others inb
      by (cases "phase s req"; cases "result s req")
         (auto simp: active_def pending_def resolve_def)
  next
    case (ResError msg)
    then show ?thesis
      using Callback reg old des ph others inb
      by (cases "phase s req"; cases "result s req")
         (auto simp: active_def pending_def resolve_def)
  next
    case (ReqError msg)
    then show ?thesis
      using Callback reg old des ph others inb
      by (cases "phase s req"; cases "result s req")
         (auto simp: active_def pending_def resolve_def)
  qed
next
  case Cancel
  show ?thesis
  proof (cases "currentChatRequest s")
    case None
    then show ?thesis
      using Cancel reg old des ph by (simp add: chat_cancel_def active_def pending_def)
  next
    case (Some req)
    then have "active s req" using reg by simp
    then have "req \<in> set (requests s)" by (simp add: active_def pending_def)
    moreover have "\<forall>r. r \<noteq> req \<longrightarrow> \<not> active s r" using reg Some by auto
    ultimately show ?thesis
      using Cancel Some old des ph by (auto simp: chat_cancel_def active_def pending_def)
  qed
qed

lemma play_one_at_a_time:
  assumes "\<forall>r. (currentChatRequest s = Some r) = active s r"
    and "\<forall>r\<in>set (butlast (requests s)). result s r \<noteq> None"
    and "set (destroyed s) \<subseteq> set (requests s)"
    and "\<forall>r. \<not> (\<exists>st e. phase s r = ErrorBody st e)"
    and "orderly evs s"
  shows "\<forall>r. (currentChatRequest (play evs s) = Some r) = active (play evs s) r"
  using assms
proof (induction evs arbitrary: s)
  case Nil
  then show ?case by simp
next
  case (Cons e es)
  have al: "allowed e s" and rest: "orderly es (step e s)"
    using Cons.prems(5) by simp_all
  from step_one_at_a_time [OF Cons.prems(1,2,3,4) al]
  have "\<forall>r. (currentChatRequest (play es (step e s)) = Some r) = active (play es (step e s)) r"
    using Cons.IH [of "step e s"] rest by blast
  then show ?case by simp
qed

lemma registered_iff_active:
  "orderly evs idle \<Longrightarrow> (currentChatRequest (play evs idle) = Some r) = active (play evs idle) r"
  using play_one_at_a_time [of idle evs]
  by (simp add: idle_def active_def pending_def)

text \<open>
  C8, as the code has it. While calls are made one at a time (a call is made only when
  no earlier call is pending, only the latest request is called back, and responses
  have status 200), \<open>chat:cancel\<close> answers \<open>{cancelled: true}\<close> exactly when a
  request is active. With no request active it returns the state as it was; nothing can
  raise, the handler only tests the variable. With a request active it calls
  \<open>destroy()\<close> on that request and clears the variable; it sends nothing, settles
  nothing, and no request is active afterwards.
\<close>

theorem chat_cancel_one_at_a_time:
  assumes "orderly evs idle"
  shows "snd (chat_cancel (play evs idle)) = (\<exists>r. active (play evs idle) r)
         \<and> ((\<forall>r. \<not> active (play evs idle) r) \<longrightarrow>
               chat_cancel (play evs idle) = (play evs idle, False))
         \<and> (\<forall>r. active (play evs idle) r \<longrightarrow>
               snd (chat_cancel (play evs idle)) = True
               \<and> destroyed (fst (chat_cancel (play evs idle))) = destroyed (play evs idle) @ [r]
               \<and> currentChatRequest (fst (chat_cancel (play evs idle))) = None
               \<and> sent (fst (chat_cancel (play evs idle))) = sent (play evs idle)
               \<and> result (fst (chat_cancel (play evs idle))) = result (play evs idle)
               \<and> (\<forall>r'. \<not> active (fst (chat_cancel (play evs idle))) r'))"
proof -
  let ?s = "play evs idle"
  have reg: "\<forall>r. (currentChatRequest ?s = Some r) = active ?s r"
    using registered_iff_active [OF assms] by blast
  show ?thesis
  proof (cases "currentChatRequest ?s")
    case None
    then have "\<forall>r. \<not> active ?s r" using reg by simp
    then show ?thesis using None by (simp add: chat_cancel_def)
  next
    case (Some req)
    then have a: "active ?s req" using reg by simp
    have o: "\<forall>r. r \<noteq> req \<longrightarrow> \<not> active ?s r"
    proof (intro allI impI)
      fix r assume "r \<noteq> req"
      then have "currentChatRequest ?s \<noteq> Some r" using Some by simp
      then show "\<not> active ?s r" using reg by blast
    qed
    have 1: "snd (chat_cancel ?s) = (\<exists>r. active ?s r)"
      using Some a by (auto simp: chat_cancel_def)
    have 2: "\<not> (\<forall>r. \<not> active ?s r)" using a by blast
    have 3: "\<forall>r'. \<not> active (fst (chat_cancel ?s)) r'"
      using Some o by (auto simp: chat_cancel_def active_def pending_def)
    have 4: "\<forall>r. active ?s r \<longrightarrow> r = req" using o by blast
    have 5: "snd (chat_cancel ?s) = True
             \<and> destroyed (fst (chat_cancel ?s)) = destroyed ?s @ [req]
             \<and> currentChatRequest (fst (chat_cancel ?s)) = None
             \<and> sent (fst (chat_cancel ?s)) = sent ?s
             \<and> result (fst (chat_cancel ?s)) = result ?s"
      using Some by (simp add: chat_cancel_def)
    from 1 2 3 4 5 show ?thesis by blast
  qed
qed

text \<open>After a streamed response has ended no request is active, and a cancellation
  changes nothing; during the response request 1 is active, and a cancellation destroys
  it.\<close>

theorem chat_cancel_one_at_a_time_witness:
  "chat_cancel (play [Start sample_store 1 sample_args, Callback 1 (Response 200),
                      Callback 1 (ResData scenario_B_1), Callback 1 (ResData scenario_B_2),
                      Callback 1 ResEnd] idle)
     = (play [Start sample_store 1 sample_args, Callback 1 (Response 200),
              Callback 1 (ResData scenario_B_1), Callback 1 (ResData scenario_B_2),
              Callback 1 ResEnd] idle, False)
   \<and> active (play [Start sample_store 1 sample_args, Callback 1 (Response 200),
                   Callback 1 (ResData scenario_B_1)] idle) 1
   \<and> snd (chat_cancel (play [Start sample_store 1 sample_args, Callback 1 (Response 200),
                             Callback 1 (ResData scenario_B_1)] idle)) = True
   \<and> destroyed (fst (chat_cancel (play [Start sample_store 1 sample_args,
                                        Callback 1 (Response 200),
                                        Callback 1 (ResData scenario_B_1)] idle))) = [1]"
proof -
  let ?ended = "[Start sample_store 1 sample_args, Callback 1 (Response 200),
                 Callback 1 (ResData scenario_B_1), Callback 1 (ResData scenario_B_2),
                 Callback 1 ResEnd]"
  let ?during = "[Start sample_store 1 sample_args, Callback 1 (Response 200),
                  Callback 1 (ResData scenario_B_1)]"
  have o1: "orderly ?ended idle" and o2: "orderly ?during idle"
    by (simp_all add: idle_def chat_stream_def pending_def)
  have n: "\<forall>r. \<not> active (play ?ended idle) r"
    by (simp add: idle_def chat_stream_def active_def pending_def resolve_def)
  have a: "active (play ?during idle) 1"
    by (simp add: idle_def chat_stream_def active_def pending_def)
  have d: "destroyed (play ?during idle) = []"
    by (simp add: idle_def chat_stream_def)
  have 1: "chat_cancel (play ?ended idle) = (play ?ended idle, False)"
    using chat_cancel_one_at_a_time [OF o1] n by blast
  have 2: "snd (chat_cancel (play ?during idle)) = True
           \<and> destroyed (fst (chat_cancel (play ?during idle)))
               = destroyed (play ?during idle) @ [1]"
    using chat_cancel_one_at_a_time [OF o2] a by blast
  show ?thesis
    using 1 2 a d by (simp del: play.simps One_nat_def)
qed

text \<open>
  C8 as stated fails when two calls are in flight: call 1 is streaming when call 2 is
  made; the response of request 1 ends, and its listener clears the variable that held
  request 2. Request 2 is active, and \<open>chat:cancel\<close> answers \<open>{cancelled: false}\<close>
  and leaves it running.
\<close>

theorem two_calls_in_flight_counterexample:
  "active (play [Start sample_store 1 sample_args, Callback 1 (Response 200),
                 Start sample_store 2 sample_args, Callback 1 ResEnd] idle) 2
   \<and> snd (chat_cancel (play [Start sample_store 1 sample_args, Callback 1 (Response 200),
                             Start sample_store 2 sample_args, Callback 1 ResEnd] idle))
       = False
   \<and> destroyed (fst (chat_cancel (play [Start sample_store 1 sample_args,
                                        Callback 1 (Response 200),
                                        Start sample_store 2 sample_args,
                                        Callback 1 ResEnd] idle))) = []"
  by (simp add: idle_def chat_stream_def active_def pending_def resolve_def chat_cancel_def)

section \<open>The model sent to the backend\<close>

lemma js_default_model: "js ''gpt-5.2'' \<noteq> []"
  by (simp add: js_def)

text \<open>
  C10. The body written to the request is \<open>postData\<close>. When the call leaves the
  model out or gives the empty string, it carries the model of the configuration store,
  or \<open>gpt-5.2\<close> when that setting is empty too; and whatever the call gives, the
  model of the body is never empty.
\<close>

theorem chat_stream_model_fallback:
  "posted (chat_stream st req a s) = posted s @ [postData st a]
   \<and> (arg_model a = None \<or> arg_model a = Some [] \<longrightarrow>
        model (postData st a) = (if store_model st = [] then js ''gpt-5.2'' else store_model st))
   \<and> model (postData st a) \<noteq> []"
  by (cases "arg_model a") (auto simp: chat_stream_def postData_def js_default_model)

theorem chat_stream_model_fallback_witness:
  "posted (chat_stream \<lparr>store_model = []\<rparr> 1
            \<lparr>arg_message = js ''Hello'', arg_conversationHistory = None, arg_model = Some []\<rparr>
            idle)
   = [\<lparr>message = js ''Hello'', conversation_history = [], model = js ''gpt-5.2''\<rparr>]"
  using chat_stream_model_fallback
     [of "\<lparr>store_model = []\<rparr>" 1
         "\<lparr>arg_message = js ''Hello'', arg_conversationHistory = None, arg_model = Some []\<rparr>"
         idle]
  by (simp add: postData_def idle_def)

section \<open>A response with a status other than 200\<close>

lemma run_append: "run req (xs @ ys) s = run req ys (run req xs s)"
  by (induction xs arbitrary: s) auto

lemma run_error_body:
  "phase s req = ErrorBody st e \<Longrightarrow> \<not> dumped s req \<Longrightarrow>
   run req (map ResData chunks) s =
     s\<lparr>phase := (phase s)(req := ErrorBody st (e @ concat (map toString chunks)))\<rparr>"
proof (induction chunks arbitrary: s e)
  case Nil
  then have "(phase s)(req := ErrorBody st e) = phase s" by auto
  then show ?case by simp
next
  case (Cons c cs)
  have "phase (deliver req (ResData c) s) req = ErrorBody st (e @ toString c)"
    and "\<not> dumped (deliver req (ResData c) s) req"
    using Cons.prems by simp_all
  from Cons.IH [OF this]
  have "run req (map ResData cs) (deliver req (ResData c) s) =
          (deliver req (ResData c) s)
            \<lparr>phase := (phase (deliver req (ResData c) s))
               (req := ErrorBody st ((e @ toString c) @ concat (map toString cs)))\<rparr>" .
  moreover have "(\<lambda>a. if a = req then ErrorBody st (e @ toString c @ concat (map toString cs))
                       else if a = req then ErrorBody st (e @ toString c) else phase s a)
                 = (\<lambda>a. if a = req then ErrorBody st (e @ toString c @ concat (map toString cs))
                         else phase s a)"
    by auto
  ultimately show ?case using Cons.prems by (simp add: fun_upd_def)
qed

text \<open>The handler tests \<open>res.statusCode !== 200\<close>: every other status, the other
  2xx codes included, takes the error path. When the body ends, one error event is sent,
  with the status code and the text collected from the chunks, each decoded on its
  own.\<close>

lemma non_200_run:
  assumes "statusCode \<noteq> 200"
  shows "run req (Response statusCode # map ResData chunks @ [ResEnd]) (chat_stream st req a s) =
     (chat_stream st req a s)
       \<lparr>sent := sent s @ [error_event (http_error_message statusCode
                                         (concat (map toString chunks)))],
        phase := (phase s)(req := ErrorBody statusCode (concat (map toString chunks))),
        result := (result s)
          (req := Some \<lparr>success = False, error = Some (concat (map toString chunks))\<rparr>)\<rparr>"
proof -
  let ?s1 = "deliver req (Response statusCode) (chat_stream st req a s)"
  have ph: "phase ?s1 req = ErrorBody statusCode []" and d: "\<not> dumped ?s1 req"
    using assms by (simp_all add: chat_stream_def)
  have "run req (map ResData chunks) ?s1 =
          ?s1\<lparr>phase := (phase ?s1)(req := ErrorBody statusCode ([] @ concat (map toString chunks)))\<rparr>"
    by (rule run_error_body [OF ph d])
  then show ?thesis
    using assms by (simp add: run_append chat_stream_def resolve_def)
qed

lemma http_error_message_contains:
  "sublist (decimal statusCode) (http_error_message statusCode errorData)
   \<and> sublist errorData (http_error_message statusCode errorData)"
proof
  show "sublist (decimal statusCode) (http_error_message statusCode errorData)"
    unfolding http_error_message_def by (rule sublist_appendI)
  have "sublist errorData ((js ''HTTP '' @ decimal statusCode @ js '': '') @ errorData)"
    by (rule sublist_append_leftI)
  then show "sublist errorData (http_error_message statusCode errorData)"
    by (simp add: http_error_message_def)
qed

text \<open>Scenario C of the specification: status 500 with the body \<open>Internal error\<close>
  in one chunk gives the one message \<open>HTTP 500: Internal error\<close>.\<close>

lemma scenario_C_events:
  "sent (run 1 [Response 500, ResData (bytes ''Internal error''), ResEnd] connecting)
     = [JObject [(js ''type'', JString (js ''error'')),
                 (js ''message'', JString (js ''HTTP 500: Internal error''))]]"
  by code_simp

text \<open>
  C4. The claim holds of a body of ASCII text that ends (\<open>non_200_run\<close>,
  \<open>http_error_message_contains\<close>, \<open>toString_ascii_chunks\<close>; Scenario C:
  \<open>scenario_C_events\<close>) and fails otherwise. The listener decodes each chunk on its
  own: the body \<open>caf\<close> U+00E9 of a response with status 500, delivered whole, gives
  the message \<open>HTTP 500: caf\<close> U+00E9, and cut between the two bytes C3 A9 of its
  last letter it gives a message, and a result, with U+FFFD U+FFFD in place of the
  letter. And this branch registers no listener for the response's \<open>error\<close> event:
  when the body is cut off before its end, no event is sent and the call stays pending.
\<close>

theorem error_body_not_read_in_full:
  "sent (run 1 [Response 500, ResData (bytes ''caf'' @ [0xC3, 0xA9]), ResEnd] connecting)
     = [JObject [(js ''type'', JString (js ''error'')),
                 (js ''message'', JString (js ''HTTP 500: caf'' @ [0xE9]))]]
   \<and> sent (run 1 [Response 500, ResData (bytes ''caf'' @ [0xC3]), ResData [0xA9], ResEnd]
            connecting)
     = [JObject [(js ''type'', JString (js ''error'')),
                 (js ''message'', JString (js ''HTTP 500: caf'' @ [0xFFFD, 0xFFFD]))]]
   \<and> result (run 1 [Response 500, ResData (bytes ''caf'' @ [0xC3]), ResData [0xA9], ResEnd]
              connecting) 1
     = Some \<lparr>success = False, error = Some (js ''caf'' @ [0xFFFD, 0xFFFD])\<rparr>
   \<and> sent (run 1 [Response 500, ResData (bytes ''Internal''), ResError (js ''aborted'')]
            connecting) = []
   \<and> result (run 1 [Response 500, ResData (bytes ''Internal''), ResError (js ''aborted'')]
              connecting) 1 = None"
  by code_simp

section \<open>Chunk boundaries\<close>

text \<open>Scenario B of the specification: the two chunks give the token event, then the
  done event.\<close>

lemma scenario_B_events:
  "sent (run 1 [ResData scenario_B_1, ResData scenario_B_2] streaming) =
     [JObject [(js ''type'', JString (js ''token'')), (js ''content'', JString (js ''Hi''))],
      JObject [(js ''type'', JString (js ''done'')), (js ''content'', JString (js ''Hi''))]]"
  by code_simp

text \<open>A frame whose payload is the JSON text \<open>null\<close> parses, and is dropped by the
  TypeError of the logging statement.\<close>

lemma null_frame_dropped:
  "JSON_parse (js ''null'') = Some JNull
   \<and> sent (run 1 [ResData (bytes ''data: null'' @ [0x0A])] streaming) = []"
  by code_simp

text \<open>
  C1. The events sent do not depend on how the text of the stream is cut into chunks
  (\<open>stream_split_invariant\<close>), and so not on how a stream of ASCII bytes is cut
  (\<open>stream_split_invariant_ascii\<close>); the buffer keeps the text after the last
  newline (\<open>feed_buffer_no_newline\<close>, \<open>split_nl_roundtrip\<close>); Scenario B gives its
  two events (\<open>scenario_B_events\<close>). For bytes in general the claim fails: each chunk
  is decoded on its own, so a chunk boundary inside the encoding of one character
  turns both halves into U+FFFD. Delivered whole, the frame below gives a token event
  with the content U+00E9; cut between the bytes C3 and A9, it gives a token event
  with the content U+FFFD U+FFFD.
\<close>

theorem split_inside_character:
  "sent (run 1 [ResData (accent_1 @ accent_2)] streaming) =
     [JObject [(js ''type'', JString (js ''token'')), (js ''content'', JString [0xE9])]]
   \<and> sent (run 1 [ResData accent_1, ResData accent_2] streaming) =
     [JObject [(js ''type'', JString (js ''token'')),
               (js ''content'', JString [0xFFFD, 0xFFFD])]]"
  by code_simp

section \<open>Callbacks after a cancellation\<close>





section \<open>The registered request after a call has ended\<close>

text \<open>The end and the error of a streamed response, the error of the request, and a
  cancellation each clear \<open>currentChatRequest\<close>, and a cancellation then finds
  nothing to cancel.\<close>

lemma terminal_paths_clear_reference:
  "phase s req = Streaming buf \<Longrightarrow> currentChatRequest (deliver req ResEnd s) = None"
  "phase s req = Streaming buf \<Longrightarrow> currentChatRequest (deliver req (ResError msg) s) = None"
  "phase s req \<noteq> Idle \<Longrightarrow> currentChatRequest (deliver req (ReqError msg) s) = None"
  "currentChatRequest (fst (chat_cancel s)) = None"
  by (cases "result s req"; cases "currentChatRequest s"; cases "phase s req";
      simp add: resolve_def chat_cancel_def)+

lemma cancel_unregistered: "currentChatRequest s = None \<Longrightarrow> snd (chat_cancel s) = False"
  by (simp add: chat_cancel_def)

text \<open>
  C9. The end of a response with a status other than 200 is a terminal path too (it
  resolves the call), and its listener does not clear the variable: after request 1
  got status 500 and its body ended, the call is resolved with \<open>success: false\<close>,
  request 1 is still registered, and \<open>chat:cancel\<close> answers \<open>{cancelled: true}\<close>.
\<close>

theorem error_body_end_keeps_reference:
  "result (run 1 [Response 500, ResData (bytes ''Internal error''), ResEnd] connecting) 1
     = Some \<lparr>success = False, error = Some (js ''Internal error'')\<rparr>
   \<and> currentChatRequest (run 1 [Response 500, ResData (bytes ''Internal error''), ResEnd]
                           connecting)
     = Some 1
   \<and> snd (chat_cancel (run 1 [Response 500, ResData (bytes ''Internal error''), ResEnd]
                         connecting))
     = True"
  by code_simp

section \<open>The health probe against an unreachable target\<close>

text \<open>A timer waits at least the delay it is set with when that delay is one Node
  honours.\<close>

lemma timer_delay_honoured: "delay \<le> 2147483647 \<Longrightarrow> delay \<le> timer_delay delay"
  by (simp add: timer_delay_def)

text \<open>A request that is called back once.\<close>

lemma attempt_single:
  "callbacks_of net p = [(dt, cb)] \<Longrightarrow>
   attempt net delay p t attemptsLeft =
     (t, HttpGet) #
     (case cb of
        OnResponse statusCode \<Rightarrow>
          if statusCode = 200 then [(t + dt, Resolve True)]
          else if attemptsLeft > 0 then
            (t + dt, SetTimeout delay) #
            attempt net delay (p @ [0]) (t + dt + timer_delay delay + lateness net (p @ [0]))
              (attemptsLeft - 1)
          else [(t + dt, Reject (js ''Health check failed: '' @ decimal statusCode))]
      | OnError err \<Rightarrow>
          if attemptsLeft > 0 then
            (t + dt, SetTimeout delay) #
            attempt net delay (p @ [0]) (t + dt + timer_delay delay + lateness net (p @ [0]))
              (attemptsLeft - 1)
          else [(t + dt, Reject err)]
      | OnTimeout \<Rightarrow>
          (t + dt, ReqDestroy) #
          (if attemptsLeft > 0 then
             (t + dt, SetTimeout delay) #
             attempt net delay (p @ [0]) (t + dt + timer_delay delay + lateness net (p @ [0]))
               (attemptsLeft - 1)
           else [(t + dt, Reject (js ''Health check timeout''))]))"
  by (subst attempt.simps) simp

lemma attempt_refused:
  assumes "refuses net"
  obtains dt err where
    "attempt net delay p t n =
       (t, HttpGet) #
       (if n > 0 then
          (t + dt, SetTimeout delay) #
          attempt net delay (p @ [0]) (t + dt + timer_delay delay + lateness net (p @ [0])) (n - 1)
        else [(t + dt, Reject err)])"
proof -
  from assms obtain dt err where "callbacks_of net p = [(dt, OnError err)]"
    unfolding refuses_def by blast
  from attempt_single [OF this, of delay t n] that show thesis by simp
qed

text \<open>The GETs: one more than the retries, each after the one before; at least the
  delay apart when the delay is one Node honours.\<close>

lemma refused_gets:
  "refuses net \<Longrightarrow> \<exists>ts. get_times (attempt net delay p t n) = t # ts \<and> length ts = n
      \<and> (delay \<le> 2147483647 \<longrightarrow> successively (\<lambda>a b. a + delay \<le> b) (t # ts))"
proof (induction n arbitrary: p t)
  case 0
  obtain dt err where "attempt net delay p t 0 = [(t, HttpGet), (t + dt, Reject err)]"
    using attempt_refused [OF 0, of delay p t 0] by auto
  then show ?case by (simp add: get_times_def)
next
  case (Suc n)
  obtain dt err where a:
    "attempt net delay p t (Suc n) =
       (t, HttpGet) # (t + dt, SetTimeout delay) #
       attempt net delay (p @ [0]) (t + dt + timer_delay delay + lateness net (p @ [0])) n"
    using attempt_refused [OF Suc.prems, of delay p t "Suc n"] by auto
  let ?t' = "t + dt + timer_delay delay + lateness net (p @ [0])"
  obtain ts where ts: "get_times (attempt net delay (p @ [0]) ?t' n) = ?t' # ts"
      "length ts = n"
      "delay \<le> 2147483647 \<longrightarrow> successively (\<lambda>a b. a + delay \<le> b) (?t' # ts)"
    using Suc.IH [OF Suc.prems, of "p @ [0]" ?t'] by blast
  have "get_times (attempt net delay p t (Suc n)) = t # ?t' # ts"
    using a ts(1) by (simp add: get_times_def)
  moreover have "delay \<le> 2147483647 \<longrightarrow> t + delay \<le> ?t'"
    using timer_delay_honoured [of delay] by auto
  ultimately show ?case using ts by simp
qed

lemma refused_delays:
  "refuses net \<Longrightarrow> timer_delays (attempt net delay p t n) = replicate n delay"
proof (induction n arbitrary: p t)
  case 0
  obtain dt err where "attempt net delay p t 0 = [(t, HttpGet), (t + dt, Reject err)]"
    using attempt_refused [OF 0, of delay p t 0] by auto
  then show ?case by simp
next
  case (Suc n)
  obtain dt err where a:
    "attempt net delay p t (Suc n) =
       (t, HttpGet) # (t + dt, SetTimeout delay) #
       attempt net delay (p @ [0]) (t + dt + timer_delay delay + lateness net (p @ [0])) n"
    using attempt_refused [OF Suc.prems, of delay p t "Suc n"] by auto
  show ?case using a Suc.IH [OF Suc.prems] by simp
qed

text \<open>The calls: in the order of their times, and the one that settles the promise,
  a rejection, is the last.\<close>

lemma refused_trace:
  "refuses net \<Longrightarrow>
   \<exists>tr err t'. attempt net delay p t n = tr @ [(t', Reject err)]
      \<and> settlements tr = [] \<and> sorted (map fst (tr @ [(t', Reject err)]))
      \<and> (\<forall>x\<in>set tr. t \<le> fst x) \<and> t \<le> t'
      \<and> (delay \<le> 2147483647 \<longrightarrow> t + n * delay \<le> t')"
proof (induction n arbitrary: p t)
  case 0
  obtain dt err where "attempt net delay p t 0 = [(t, HttpGet), (t + dt, Reject err)]"
    using attempt_refused [OF 0, of delay p t 0] by auto
  then have "attempt net delay p t 0 = [(t, HttpGet)] @ [(t + dt, Reject err)]
      \<and> settlements [(t, HttpGet)] = []
      \<and> sorted (map fst ([(t, HttpGet)] @ [(t + dt, Reject err)]))
      \<and> (\<forall>x\<in>set [(t, HttpGet)]. t \<le> fst x) \<and> t \<le> t + dt
      \<and> (delay \<le> 2147483647 \<longrightarrow> t + 0 * delay \<le> t + dt)"
    by simp
  then show ?case by blast
next
  case (Suc n)
  obtain dt err where a:
    "attempt net delay p t (Suc n) =
       (t, HttpGet) # (t + dt, SetTimeout delay) #
       attempt net delay (p @ [0]) (t + dt + timer_delay delay + lateness net (p @ [0])) n"
    using attempt_refused [OF Suc.prems, of delay p t "Suc n"] by auto
  let ?t1 = "t + dt + timer_delay delay + lateness net (p @ [0])"
  obtain tr e t' where ih:
    "attempt net delay (p @ [0]) ?t1 n = tr @ [(t', Reject e)]"
    "settlements tr = []" "sorted (map fst (tr @ [(t', Reject e)]))"
    "\<forall>x\<in>set tr. ?t1 \<le> fst x" "?t1 \<le> t'"
    "delay \<le> 2147483647 \<longrightarrow> ?t1 + n * delay \<le> t'"
    using Suc.IH [OF Suc.prems, of "p @ [0]" ?t1] by blast
  let ?tr = "(t, HttpGet) # (t + dt, SetTimeout delay) # tr"
  have 1: "attempt net delay p t (Suc n) = ?tr @ [(t', Reject e)]"
    using a ih(1) by simp
  have 2: "settlements ?tr = []" using ih(2) by simp
  have 3: "sorted (map fst (?tr @ [(t', Reject e)]))"
    using ih(3,4,5) by (auto simp: sorted_append)
  have 4: "\<forall>x\<in>set ?tr. t \<le> fst x" using ih(4) by auto
  have 5: "t \<le> t'" using ih(5) by simp
  have 6: "delay \<le> 2147483647 \<longrightarrow> t + Suc n * delay \<le> t'"
    using ih(6) timer_delay_honoured [of delay] by auto
  from 1 2 3 4 5 6 show ?case by blast
qed

lemma settlements_append: "settlements (xs @ ys) = settlements xs @ settlements ys"
  by (induction xs rule: settlements.induct) auto

lemma refused_promise:
  assumes "refuses net"
  shows "\<exists>err t'. promise_of (attempt net delay p t n) = Some (Rejected err, t')
           \<and> (delay \<le> 2147483647 \<longrightarrow> t + n * delay \<le> t')
           \<and> (\<forall>g\<in>set (get_times (attempt net delay p t n)). g \<le> t')"
proof -
  obtain tr err t' where tr:
    "attempt net delay p t n = tr @ [(t', Reject err)]"
    "settlements tr = []" "sorted (map fst (tr @ [(t', Reject err)]))"
    "delay \<le> 2147483647 \<longrightarrow> t + n * delay \<le> t'"
    using refused_trace [OF assms, of delay p t n] by blast
  have "sort_key fst (attempt net delay p t n) = attempt net delay p t n"
    using tr(1,3) by (simp add: sort_key_id_if_sorted)
  then have "promise_of (attempt net delay p t n) = Some (Rejected err, t')"
    using tr(1,2) by (simp add: promise_of_def settlements_append)
  moreover have "\<forall>g\<in>set (get_times (attempt net delay p t n)). g \<le> t'"
    using tr(1,3) by (auto simp: get_times_def sorted_append)
  ultimately show ?thesis using tr(4) by blast
qed

text \<open>The probes of Scenario A and of the start-up fallback against a backend
  nothing listens for, and a probe with one retry whose delay is one millisecond more
  than Node honours.\<close>

lemma refusing_probe_3:
  "checkBackendHealth refusing 3 100 0 =
     [(0, HttpGet), (2, SetTimeout 100), (102, HttpGet), (104, SetTimeout 100),
      (204, HttpGet), (206, SetTimeout 100), (306, HttpGet),
      (308, Reject (js ''connect ECONNREFUSED 127.0.0.1:8765''))]"
  by (simp add: checkBackendHealth_def refusing_def attempt_single timer_delay_def)

lemma refusing_probe_5:
  "checkBackendHealth refusing 5 1000 3000 =
     [(3000, HttpGet), (3002, SetTimeout 1000), (4002, HttpGet), (4004, SetTimeout 1000),
      (5004, HttpGet), (5006, SetTimeout 1000), (6006, HttpGet), (6008, SetTimeout 1000),
      (7008, HttpGet), (7010, SetTimeout 1000), (8010, HttpGet),
      (8012, Reject (js ''connect ECONNREFUSED 127.0.0.1:8765''))]"
  by (simp add: checkBackendHealth_def refusing_def attempt_single timer_delay_def)

lemma refusing_probe_overflow:
  "checkBackendHealth refusing 1 2147483648 0 =
     [(0, HttpGet), (2, SetTimeout 2147483648), (3, HttpGet),
      (5, Reject (js ''connect ECONNREFUSED 127.0.0.1:8765''))]"
  by (simp add: checkBackendHealth_def refusing_def attempt_single timer_delay_def)

text \<open>
  C2, as the code has it. Against a target that is always unreachable,
  \<open>checkBackendHealth(N, D)\<close> sends exactly \<open>N + 1\<close> GETs and then rejects; every
  timer is set with the same delay \<open>D\<close> (no backoff). When \<open>D\<close> is at most
  2147483647 ms, the largest delay a timer honours, each GET comes at least \<open>D\<close> ms
  after the one before and the rejection no earlier than \<open>N * D\<close> ms after the call.
  The witness is Scenario A (3 retries, 100 ms): four GETs, rejected with the
  connection error after 308 ms.
\<close>

theorem unreachable_probe:
  assumes "refuses net"
  shows "length (get_times (checkBackendHealth net N D t)) = N + 1
         \<and> timer_delays (checkBackendHealth net N D t) = replicate N D
         \<and> (\<exists>err t'. promise_of (checkBackendHealth net N D t) = Some (Rejected err, t')
                \<and> (\<forall>g\<in>set (get_times (checkBackendHealth net N D t)). g \<le> t')
                \<and> (D \<le> 2147483647 \<longrightarrow> t + N * D \<le> t'))
         \<and> (D \<le> 2147483647 \<longrightarrow>
               successively (\<lambda>a b. a + D \<le> b) (get_times (checkBackendHealth net N D t)))"
proof -
  obtain ts where "get_times (attempt net D [] t N) = t # ts" "length ts = N"
      "D \<le> 2147483647 \<longrightarrow> successively (\<lambda>a b. a + D \<le> b) (t # ts)"
    using refused_gets [OF assms, of D "[]" t N] by blast
  then show ?thesis
    using refused_delays [OF assms, of D "[]" t N] refused_promise [OF assms, of D "[]" t N]
    by (auto simp: checkBackendHealth_def)
qed

theorem unreachable_probe_witness:
  "refuses refusing
   \<and> get_times (checkBackendHealth refusing 3 100 0) = [0, 102, 204, 306]
   \<and> timer_delays (checkBackendHealth refusing 3 100 0) = [100, 100, 100]
   \<and> promise_of (checkBackendHealth refusing 3 100 0)
       = Some (Rejected (js ''connect ECONNREFUSED 127.0.0.1:8765''), 308)"
proof -
  have r: "refuses refusing"
    by (simp add: refuses_def refusing_def)
  show ?thesis
    using unreachable_probe [OF r, of 3 100 0] r
    unfolding refusing_probe_3 by (simp add: get_times_def promise_of_def)
qed

text \<open>
  C2 as stated fails for a delay that a timer does not honour: with one retry and a
  delay of 2147483648 ms the timer is set with that delay and fires after 1 ms; the
  second GET is sent 3 ms after the first, and the probe is rejected 5 ms after the
  call, not 2147483648 ms or later.
\<close>

theorem timer_overflow_counterexample:
  "timer_delays (checkBackendHealth refusing 1 2147483648 0) = [2147483648]
   \<and> get_times (checkBackendHealth refusing 1 2147483648 0) = [0, 3]
   \<and> promise_of (checkBackendHealth refusing 1 2147483648 0)
       = Some (Rejected (js ''connect ECONNREFUSED 127.0.0.1:8765''), 5)
   \<and> (5::nat) < 0 + 1 * 2147483648"
  unfolding refusing_probe_overflow by (simp add: get_times_def promise_of_def)

section \<open>The health probe when every request is called back once\<close>

lemma chain_0: "chain net p 0 = [callback_of net p]"
  by (simp add: chain_def)

lemma chain_Suc: "chain net p (Suc n) = callback_of net p # chain net (p @ [0]) n"
proof -
  have "[0..<Suc (Suc n)] = 0 # map Suc [0..<Suc n]"
    by (simp only: map_Suc_upt upt_conv_Cons [of 0 "Suc (Suc n)"])
  then show ?thesis
    by (simp add: chain_def replicate_app_Cons_same del: upt_Suc)
qed

lemma chain_nonempty: "chain net p n \<noteq> []"
  by (simp add: chain_def)

lemma length_chain: "length (chain net p n) = Suc n"
  by (simp add: chain_def)

lemma once_trace:
  assumes "called_back_once net"
  shows "\<exists>tr t'. attempt net delay p t n = tr @ [(t', final_call (chain net p n))]
           \<and> settlements tr = []
           \<and> sorted (map fst (tr @ [(t', final_call (chain net p n))]))
           \<and> (\<forall>x\<in>set tr. t \<le> fst x) \<and> t \<le> t'
           \<and> length (get_times tr) = gets_sent (chain net p n)"
proof (induction n arbitrary: p t)
  case 0
  obtain dt cb where c: "callbacks_of net p = [(dt, cb)]"
    using assms unfolding called_back_once_def by blast
  then have cb: "callback_of net p = cb" by (simp add: callback_of_def)
  let ?tr = "(t, HttpGet) # (if cb = OnTimeout then [(t + dt, ReqDestroy)] else [])"
  have "attempt net delay p t 0 = ?tr @ [(t + dt, final_call [cb])]"
    using attempt_single [OF c, of delay t 0]
    by (cases cb) (auto simp: final_call_def)
  moreover have "settlements ?tr = []" by simp
  moreover have "sorted (map fst (?tr @ [(t + dt, final_call [cb])]))" by simp
  moreover have "\<forall>x\<in>set ?tr. t \<le> fst x" by simp
  moreover have "length (get_times ?tr) = gets_sent [cb]"
    by (simp add: get_times_def gets_sent_def)
  ultimately show ?case
    unfolding chain_0 cb by (intro exI [of _ ?tr] exI [of _ "t + dt"]) simp
next
  case (Suc n)
  obtain dt cb where c: "callbacks_of net p = [(dt, cb)]"
    using assms unfolding called_back_once_def by blast
  then have cb: "callback_of net p = cb" by (simp add: callback_of_def)
  let ?cbs = "chain net (p @ [0]) n"
  have ch: "chain net p (Suc n) = cb # ?cbs"
    by (simp add: chain_Suc cb)
  show ?case
  proof (cases "cb = OnResponse 200")
    case True
    let ?tr = "[(t, HttpGet)]"
    have "attempt net delay p t (Suc n) = ?tr @ [(t + dt, final_call (cb # ?cbs))]"
      using attempt_single [OF c, of delay t "Suc n"] True by (simp add: final_call_def)
    moreover have "length (get_times ?tr) = gets_sent (cb # ?cbs)"
      using True by (simp add: get_times_def gets_sent_def length_chain)
    ultimately show ?thesis
      unfolding ch by (intro exI [of _ ?tr] exI [of _ "t + dt"]) simp
  next
    case False
    let ?t1 = "t + dt + timer_delay delay + lateness net (p @ [0])"
    let ?pre = "(t, HttpGet) # (if cb = OnTimeout then [(t + dt, ReqDestroy)] else [])
                  @ [(t + dt, SetTimeout delay)]"
    have a: "attempt net delay p t (Suc n) = ?pre @ attempt net delay (p @ [0]) ?t1 n"
      using attempt_single [OF c, of delay t "Suc n"] False by (cases cb) auto
    obtain tr t' where ih:
      "attempt net delay (p @ [0]) ?t1 n = tr @ [(t', final_call ?cbs)]"
      "settlements tr = []"
      "sorted (map fst (tr @ [(t', final_call ?cbs)]))"
      "\<forall>x\<in>set tr. ?t1 \<le> fst x" "?t1 \<le> t'"
      "length (get_times tr) = gets_sent ?cbs"
      using Suc.IH [of "p @ [0]" ?t1] by blast
    have fc: "final_call (cb # ?cbs) = final_call ?cbs"
      using False chain_nonempty [of net "p @ [0]" n] by (simp add: final_call_def)
    have 1: "attempt net delay p t (Suc n) = (?pre @ tr) @ [(t', final_call (cb # ?cbs))]"
      using a ih(1) fc by simp
    have 2: "settlements (?pre @ tr) = []"
      using ih(2) by (simp add: settlements_append)
    have 3: "sorted (map fst ((?pre @ tr) @ [(t', final_call (cb # ?cbs))]))"
      using ih(3,4,5) by (auto simp: sorted_append)
    have 4: "\<forall>x\<in>set (?pre @ tr). t \<le> fst x"
      using ih(4) by auto
    have 5: "t \<le> t'" using ih(5) by simp
    have 6: "length (get_times (?pre @ tr)) = gets_sent (cb # ?cbs)"
      using ih(6) False by (simp add: get_times_def gets_sent_def)
    from 1 2 3 4 5 6 show ?thesis
      unfolding ch by blast
  qed
qed

text \<open>
  When every request of the probe is called back exactly once, the probe succeeds if
  and only if one of its \<open>N + 1\<close> possible attempts gets status 200, it sends no
  GET after the first such attempt, every other callback costs one retry, and with the
  retries used up it is rejected with the reason of the last attempt.
\<close>

lemma probe_called_back_once:
  assumes "called_back_once net"
  shows "\<exists>t'. promise_of (checkBackendHealth net N D t)
                 = Some (if OnResponse 200 \<in> set (chain net [] N) then Resolved True
                         else Rejected (reason (last (chain net [] N))), t')"
    and "length (get_times (checkBackendHealth net N D t))
           = min (Suc (length (takeWhile (\<lambda>c. c \<noteq> OnResponse 200) (chain net [] N)))) (Suc N)"
proof -
  obtain tr t' where tr:
    "attempt net D [] t N = tr @ [(t', final_call (chain net [] N))]"
    "settlements tr = []"
    "sorted (map fst (tr @ [(t', final_call (chain net [] N))]))"
    "length (get_times tr) = gets_sent (chain net [] N)"
    using once_trace [OF assms, of D "[]" t N] by blast
  have s: "sort_key fst (attempt net D [] t N) = attempt net D [] t N"
    using tr(1,3) by (simp add: sort_key_id_if_sorted)
  have "promise_of (checkBackendHealth net N D t)
          = Some (if OnResponse 200 \<in> set (chain net [] N) then Resolved True
                  else Rejected (reason (last (chain net [] N))), t')"
    using tr(1,2) s
    by (simp add: promise_of_def checkBackendHealth_def settlements_append final_call_def)
  then show "\<exists>t'. promise_of (checkBackendHealth net N D t)
                 = Some (if OnResponse 200 \<in> set (chain net [] N) then Resolved True
                         else Rejected (reason (last (chain net [] N))), t')"
    by blast
  have "final_call (chain net [] N) \<noteq> HttpGet"
    by (simp add: final_call_def)
  then show "length (get_times (checkBackendHealth net N D t))
           = min (Suc (length (takeWhile (\<lambda>c. c \<noteq> OnResponse 200) (chain net [] N)))) (Suc N)"
    using tr(1,4)
    by (simp add: checkBackendHealth_def get_times_def gets_sent_def length_chain)
qed

section \<open>The health probe against a target that does not answer\<close>

text \<open>A request that gets the \<open>timeout\<close> event and then, destroyed, the
  \<open>error\<close> event.\<close>

lemma attempt_timeout_then_error:
  "callbacks_of net p = [(dt, OnTimeout), (dt', OnError err)] \<Longrightarrow>
   attempt net delay p t attemptsLeft =
     (t, HttpGet) # (t + dt, ReqDestroy) #
     (if attemptsLeft > 0 then
        (t + dt, SetTimeout delay) #
        attempt net delay (p @ [0]) (t + dt + timer_delay delay + lateness net (p @ [0])) (attemptsLeft - 1)
      else [(t + dt, Reject (js ''Health check timeout''))]) @
     (if attemptsLeft > 0 then
        (t + dt', SetTimeout delay) #
        attempt net delay (p @ [1]) (t + dt' + timer_delay delay + lateness net (p @ [1])) (attemptsLeft - 1)
      else [(t + dt', Reject err)])"
  by (subst attempt.simps) simp

lemma hanging_probe_1:
  "checkBackendHealth hanging 1 500 0 =
     [(0, HttpGet), (5000, ReqDestroy),
      (5000, SetTimeout 500), (5500, HttpGet), (10500, ReqDestroy),
        (10500, Reject (js ''Health check timeout'')), (10500, Reject (js ''socket hang up'')),
      (5000, SetTimeout 500), (5500, HttpGet), (10500, ReqDestroy),
        (10500, Reject (js ''Health check timeout'')), (10500, Reject (js ''socket hang up''))]"
  by (simp add: checkBackendHealth_def hanging_def attempt_timeout_then_error timer_delay_def)

text \<open>With one retry against the backend that comes up during the probe, the third
  request gets status 200, and the promise has been rejected 48 ms before.\<close>

lemma racing_probe_1:
  "checkBackendHealth racing 1 500 0 =
     [(0, HttpGet), (5000, ReqDestroy),
      (5000, SetTimeout 500), (5500, HttpGet),
        (5502, Reject (js ''connect ECONNREFUSED 127.0.0.1:8765'')),
      (5000, SetTimeout 500), (5500, HttpGet), (5550, Resolve True)]"
  by (simp add: checkBackendHealth_def racing_def attempt_timeout_then_error attempt_single
    timer_delay_def)

lemma late_success_ignored:
  "promise_of (checkBackendHealth racing 1 500 0)
     = Some (Rejected (js ''connect ECONNREFUSED 127.0.0.1:8765''), 5502)"
  unfolding racing_probe_1 by (simp add: promise_of_def)

text \<open>
  C5. When every request is called back once, the probe does what is claimed
  (\<open>probe_called_back_once\<close>). A request that times out is called back twice: the
  listener of \<open>timeout\<close> destroys the request and schedules the next attempt; the
  request, destroyed before any response, then gets its \<open>error\<close> event, whose
  listener schedules the next attempt once more. A timeout thus uses one retry and
  starts two attempts: with one retry against a backend that never answers, three GETs
  are sent, the second and the third at the same time, where one retry allows two.
\<close>

theorem timeout_schedules_two_attempts:
  "checkBackendHealth hanging 1 500 0 =
     [(0, HttpGet), (5000, ReqDestroy),
      (5000, SetTimeout 500), (5500, HttpGet), (10500, ReqDestroy),
        (10500, Reject (js ''Health check timeout'')), (10500, Reject (js ''socket hang up'')),
      (5000, SetTimeout 500), (5500, HttpGet), (10500, ReqDestroy),
        (10500, Reject (js ''Health check timeout'')), (10500, Reject (js ''socket hang up''))]
   \<and> get_times (checkBackendHealth hanging 1 500 0) = [0, 5500, 5500]
   \<and> promise_of (checkBackendHealth hanging 1 500 0)
       = Some (Rejected (js ''Health check timeout''), 10500)"
  unfolding hanging_probe_1 by (simp add: get_times_def promise_of_def)

section \<open>Starting the backend without a readiness marker\<close>

text \<open>A probe is rejected only by a request that has no retry left: a rejected probe
  has sent one GET more than its retries, or more. All its timers are set with the
  delay it was called with.\<close>

lemma attempt_sub:
  assumes "(k, dt, cb) \<in> set (enumerate 0 (callbacks_of net p))"
    and "cb \<noteq> OnResponse 200"
  shows "Suc (length (get_times (attempt net delay (p @ [k])
                 (t + dt + timer_delay delay + lateness net (p @ [k])) n)))
         \<le> length (get_times (attempt net delay p t (Suc n)))"
proof -
  from assms(1) obtain ys zs where e: "enumerate 0 (callbacks_of net p) = ys @ (k, dt, cb) # zs"
    by (meson split_list)
  show ?thesis
    using assms(2)
    by (subst attempt.simps [of net delay p t "Suc n"], cases cb) (simp_all add: e get_times_def)
qed

lemma reject_sub:
  assumes "(t', Reject m) \<in> set (attempt net delay p t (Suc n))"
  shows "\<exists>k dt cb. (k, dt, cb) \<in> set (enumerate 0 (callbacks_of net p)) \<and> cb \<noteq> OnResponse 200
           \<and> (t', Reject m) \<in> set (attempt net delay (p @ [k])
                 (t + dt + timer_delay delay + lateness net (p @ [k])) n)"
  using assms
  apply (subst (asm) attempt.simps [of net delay p t "Suc n"])
  apply clarsimp
  subgoal for k dt cb
    by (cases cb) (auto split: if_splits)
  done

lemma reject_needs_retries:
  "(t', Reject m) \<in> set (attempt net delay p t n) \<Longrightarrow>
   Suc n \<le> length (get_times (attempt net delay p t n))"
proof (induction n arbitrary: p t)
  case 0
  show ?case by (subst attempt.simps) (simp add: get_times_def)
next
  case (Suc n)
  from reject_sub [OF Suc.prems] obtain k dt cb where
    "(k, dt, cb) \<in> set (enumerate 0 (callbacks_of net p))" "cb \<noteq> OnResponse 200"
    "(t', Reject m) \<in> set (attempt net delay (p @ [k])
                 (t + dt + timer_delay delay + lateness net (p @ [k])) n)"
    by blast
  then show ?case
    using Suc.IH [of "p @ [k]" "t + dt + timer_delay delay + lateness net (p @ [k])"]
      attempt_sub [of k dt cb net p delay t n] by simp
qed

lemma timer_delays_append: "timer_delays (xs @ ys) = timer_delays xs @ timer_delays ys"
  by (induction xs rule: timer_delays.induct) auto

lemma timer_delays_concat:
  "set (timer_delays (concat xss)) = (\<Union>xs\<in>set xss. set (timer_delays xs))"
  by (induction xss) (auto simp: timer_delays_append)

lemma timer_delays_fixed:
  "d \<in> set (timer_delays (attempt net delay p t n)) \<Longrightarrow> d = delay"
proof (induction n arbitrary: p t)
  case 0
  then show ?case
    by (subst (asm) attempt.simps)
       (auto simp: timer_delays_concat split: probe_callback.splits if_splits)
next
  case (Suc n)
  from Suc.prems show ?case
    by (subst (asm) attempt.simps [of net delay p t "Suc n"])
       (auto simp: timer_delays_concat split: probe_callback.splits if_splits dest: Suc.IH)
qed

lemma settlements_mem:
  "(Rejected m, t') \<in> set (settlements tr) \<Longrightarrow> (t', Reject m) \<in> set tr"
  by (induction tr rule: settlements.induct) auto

lemma promise_of_rejected:
  "promise_of tr = Some (Rejected m, t') \<Longrightarrow> (t', Reject m) \<in> set tr"
proof -
  assume "promise_of tr = Some (Rejected m, t')"
  then have "(Rejected m, t') \<in> set (settlements (sort_key fst tr))"
    by (auto simp: promise_of_def split: list.splits)
  then have "(t', Reject m) \<in> set (sort_key fst tr)" by (rule settlements_mem)
  then show ?thesis by simp
qed

text \<open>A promise that has settled stays as it is.\<close>

lemma settled_stays:
  "promise s = Some r \<Longrightarrow> promise (events net es s) = Some r"
proof (induction es arbitrary: s)
  case Nil
  then show ?case by simp
next
  case (Cons e es)
  have "promise (handle net e s) = Some r"
    using Cons.prems
    by (cases e) (auto simp: settle_def mark_ready_def split: option.splits settled.splits)
  then show ?case using Cons by simp
qed

text \<open>Events that show no marker and report no error leave the call as it is.\<close>

lemma events_append: "events net (xs @ ys) s = events net ys (events net xs s)"
  by (induction xs arbitrary: s) auto

lemma quiet_events:
  assumes "\<forall>e\<in>set evs. quiet e" and "spawned s" and "\<not> isBackendReady (globals s)"
  shows "promise (events net evs s) = promise s \<and> probe (events net evs s) = probe s
         \<and> spawned (events net evs s) \<and> \<not> isBackendReady (globals (events net evs s))"
  using assms
proof (induction evs arbitrary: s)
  case Nil
  then show ?case by simp
next
  case (Cons e es)
  have q: "quiet e" using Cons.prems(1) by simp
  let ?s = "handle net e s"
  have "promise ?s = promise s \<and> probe ?s = probe s \<and> spawned ?s \<and> \<not> isBackendReady (globals ?s)"
    using q Cons.prems(2,3) by (cases e) simp_all
  then show ?case
    using Cons.IH [of ?s] Cons.prems by simp
qed

text \<open>
  C6, as the code has it. A call that is pending, with the child spawned. When the
  timer callback runs with the readiness flag clear, it starts the probe
  \<open>checkBackendHealth(5, 1000)\<close>: 5 retries, every timer set with 1000 ms, and at
  least 6 GETs sent when the probe is rejected. If the child shows no readiness marker
  and reports no error until that probe is rejected, the call resolves with
  \<open>false\<close>, and stays so whatever happens later. If instead the child reports an
  error while the call is pending, the call is rejected with that error, and stays so
  whatever happens later.
\<close>

theorem start_soft_failure:
  assumes "spawned s" and "promise s = None"
  shows "(\<not> isBackendReady (globals s) \<and> (\<forall>e\<in>set evs. quiet e)
          \<and> promise_of (checkBackendHealth net 5 1000 t) = Some (Rejected msg, t')
          \<longrightarrow> probe (events net (GraceTimer t # evs) s)
                = Some (checkBackendHealth net 5 1000 t)
              \<and> promise (events net (GraceTimer t # evs @ ProbeSettled # later) s)
                = Some (Resolved False)
              \<and> 6 \<le> length (get_times (checkBackendHealth net 5 1000 t))
              \<and> (\<forall>d\<in>set (timer_delays (checkBackendHealth net 5 1000 t)). d = 1000))
         \<and> promise (events net (ProcError err # later) s) = Some (Rejected err)"
proof (intro conjI impI)
  assume h: "\<not> isBackendReady (globals s) \<and> (\<forall>e\<in>set evs. quiet e)
             \<and> promise_of (checkBackendHealth net 5 1000 t) = Some (Rejected msg, t')"
  let ?s1 = "handle net (GraceTimer t) s"
  have s1: "spawned ?s1" "promise ?s1 = None" "\<not> isBackendReady (globals ?s1)"
           "probe ?s1 = Some (checkBackendHealth net 5 1000 t)"
    using assms h by simp_all
  let ?s2 = "events net evs ?s1"
  have q: "\<forall>e\<in>set evs. quiet e" using h by simp
  have s2: "spawned ?s2" "promise ?s2 = None" "probe ?s2 = Some (checkBackendHealth net 5 1000 t)"
    using quiet_events [OF q s1(1) s1(3), of net] s1 by simp_all
  show "probe (events net (GraceTimer t # evs) s) = Some (checkBackendHealth net 5 1000 t)"
    using assms(1) s2(3) by simp
  have "promise (handle net ProbeSettled ?s2) = Some (Resolved False)"
    using s2 h by (simp add: settle_def)
  then have "promise (events net later (handle net ProbeSettled ?s2)) = Some (Resolved False)"
    by (rule settled_stays)
  then show "promise (events net (GraceTimer t # evs @ ProbeSettled # later) s)
               = Some (Resolved False)"
    using assms(1) s2(1) by (simp add: events_append)
  have "(t', Reject msg) \<in> set (checkBackendHealth net 5 1000 t)"
    using h by (simp add: promise_of_rejected)
  then show "6 \<le> length (get_times (checkBackendHealth net 5 1000 t))"
    using reject_needs_retries [of t' msg net 1000 "[]" t 5] by (simp add: checkBackendHealth_def)
  show "\<forall>d\<in>set (timer_delays (checkBackendHealth net 5 1000 t)). d = 1000"
    using timer_delays_fixed [of _ net 1000 "[]" t 5] by (auto simp: checkBackendHealth_def)
next
  have "promise (handle net (ProcError err) s) = Some (Rejected err)"
    using assms(2) by (simp add: settle_def)
  then have "promise (events net later (handle net (ProcError err) s)) = Some (Rejected err)"
    by (rule settled_stays)
  then show "promise (events net (ProcError err # later) s) = Some (Rejected err)"
    using assms(1) by simp
qed

theorem start_soft_failure_witness:
  "promise (events refusing [GraceTimer 3000, Stderr (js ''warming up''), ProbeSettled,
                             ProcClose 1]
             (startPythonBackend True (js ''msconsole_server.py'') 1 stopped))
     = Some (Resolved False)
   \<and> 6 \<le> length (get_times (checkBackendHealth refusing 5 1000 3000))
   \<and> timer_delays (checkBackendHealth refusing 5 1000 3000) = [1000, 1000, 1000, 1000, 1000]
   \<and> promise (events refusing [ProcError (js ''spawn python3 ENOENT''), ProcClose 1]
               (startPythonBackend True (js ''msconsole_server.py'') 1 stopped))
     = Some (Rejected (js ''spawn python3 ENOENT''))"
proof -
  let ?s = "startPythonBackend True (js ''msconsole_server.py'') 1 stopped"
  have 1: "spawned ?s" and 2: "promise ?s = None" and 3: "\<not> isBackendReady (globals ?s)"
    by (simp_all add: startPythonBackend_def stopped_def)
  have 4: "\<forall>e\<in>set [Stderr (js ''warming up'')]. quiet e"
    by code_simp
  have 5: "promise_of (checkBackendHealth refusing 5 1000 3000)
             = Some (Rejected (js ''connect ECONNREFUSED 127.0.0.1:8765''), 8012)"
    unfolding refusing_probe_5 by (simp add: promise_of_def)
  have 6: "timer_delays (checkBackendHealth refusing 5 1000 3000)
             = [1000, 1000, 1000, 1000, 1000]"
    unfolding refusing_probe_5 by simp
  show ?thesis
    using start_soft_failure
            [OF 1 2, of "[Stderr (js ''warming up'')]" refusing 3000
               "js ''connect ECONNREFUSED 127.0.0.1:8765''" 8012 "[ProcClose 1]"
               "js ''spawn python3 ENOENT''"]
          3 4 5 6
    by (simp del: events.simps)
qed

text \<open>
  C6 as stated fails: the child cannot be spawned and reports the error, which rejects
  the call; no marker is seen, the timer callback runs the probe, the probe fails, and
  its \<open>resolve(false)\<close> comes too late: the call stays rejected. The probe, called
  with 5 retries, has sent 6 GETs by then.
\<close>

theorem spawn_error_rejects_counterexample:
  "promise_of (checkBackendHealth refusing 5 1000 3000)
     = Some (Rejected (js ''connect ECONNREFUSED 127.0.0.1:8765''), 8012)
   \<and> promise (events refusing [ProcError (js ''spawn python3 ENOENT''), GraceTimer 3000,
                               ProbeSettled]
               (startPythonBackend True (js ''msconsole_server.py'') 1 stopped))
       = Some (Rejected (js ''spawn python3 ENOENT''))
   \<and> get_times (checkBackendHealth refusing 5 1000 3000)
       = [3000, 4002, 5004, 6006, 7008, 8010]"
proof -
  have p: "promise_of (checkBackendHealth refusing 5 1000 3000)
             = Some (Rejected (js ''connect ECONNREFUSED 127.0.0.1:8765''), 8012)"
    unfolding refusing_probe_5 by (simp add: promise_of_def)
  have g: "get_times (checkBackendHealth refusing 5 1000 3000)
             = [3000, 4002, 5004, 6006, 7008, 8010]"
    unfolding refusing_probe_5 by (simp add: get_times_def)
  show ?thesis
    using p g by (simp add: startPythonBackend_def stopped_def settle_def)
qed

end
